theory Spec2Isabelle
  imports Main "HOL-Library.Sublist"
begin

section \<open>Ruby strings and the regular expressions of the validator\<close>

text \<open>
  The validator is the RSpec file with the class \<open>ErbAstParser\<close> and the example group
  \<open>Simple Stimulus Validator\<close>. Strings are character lists; the templates are taken
  as ASCII text, so that \<open>\w\<close>, \<open>\s\<close> and \<open>\b\<close> range over single characters. Every regular
  expression of the source is written out as the recursive function that decides it; the
  expression is quoted beside its function.
\<close>

definition newline :: char where
  "newline = CHR 0x0A"

text \<open>\<open>\w\<close>: letters, digits and the underscore.\<close>

definition word_char :: "char \<Rightarrow> bool" where
  "word_char c \<longleftrightarrow>
     c \<in> set ''abcdefghijklmnopqrstuvwxyzABCDEFGHIJKLMNOPQRSTUVWXYZ0123456789_''"

text \<open>\<open>\d\<close>.\<close>

definition digit_char :: "char \<Rightarrow> bool" where
  "digit_char c \<longleftrightarrow> c \<in> set ''0123456789''"

text \<open>\<open>\s\<close>: space, tab, line feed, vertical tab, form feed, carriage return.\<close>

definition space_char :: "char \<Rightarrow> bool" where
  "space_char c \<longleftrightarrow> c \<in> set [CHR '' '', CHR 0x09, CHR 0x0A, CHR 0x0B, CHR 0x0C, CHR 0x0D]"

text \<open>\<open>String#strip\<close> removes leading and trailing whitespace and null characters.\<close>

definition strip_char :: "char \<Rightarrow> bool" where
  "strip_char c \<longleftrightarrow> space_char c \<or> c = CHR 0x00"

definition strip :: "string \<Rightarrow> string" where
  "strip s = rev (dropWhile strip_char (rev (dropWhile strip_char s)))"

text \<open>\<open>String#include?\<close>: containment of a contiguous substring.\<close>

definition str_include :: "string \<Rightarrow> string \<Rightarrow> bool" where
  "str_include s sub \<longleftrightarrow> sublist sub s"

text \<open>\<open>String#count\<close> with a one-character argument.\<close>

definition str_count :: "string \<Rightarrow> char \<Rightarrow> nat" where
  "str_count s c = count_list s c"

text \<open>\<open>str * n\<close>.\<close>

definition str_times :: "string \<Rightarrow> nat \<Rightarrow> string" where
  "str_times s n = concat (replicate n s)"

text \<open>
  \<open>gsub(/'[^']*'|"[^"]*"/, '')\<close>: left to right, a quote that has a later quote of the
  same kind is removed together with everything up to and including that next quote; a
  quote with no partner stays.
\<close>

definition after_quote :: "char \<Rightarrow> string \<Rightarrow> string option" where
  "after_quote q s = (if q \<in> set s then Some (tl (dropWhile (\<lambda>c. c \<noteq> q) s)) else None)"

function remove_string_literals :: "string \<Rightarrow> string" where
  "remove_string_literals [] = []"
| "remove_string_literals (c # cs) =
     (if c = CHR 0x27 \<or> c = CHR 0x22 then
        (case after_quote c cs of
           Some rest \<Rightarrow> remove_string_literals rest
         | None \<Rightarrow> c # remove_string_literals cs)
      else c # remove_string_literals cs)"
  by pat_completeness auto
termination
proof (relation "measure length")
  fix c :: char and cs rest :: string
  assume "after_quote c cs = Some rest"
  then have "rest = tl (dropWhile (\<lambda>d. d \<noteq> c) cs)"
    by (simp add: after_quote_def split: if_splits)
  moreover have "length (dropWhile (\<lambda>d. d \<noteq> c) cs) \<le> length cs"
    by (rule length_dropWhile_le)
  ultimately show "(rest, c # cs) \<in> measure length"
    by simp
qed simp_all

text \<open>
  A keyword as a whole word, \<open>\bkw\b\<close>, for a keyword made of word characters: the
  character before it (if any) and the character after it (if any) are not word
  characters. \<open>pw\<close> tells whether the character before the current position is a word
  character. Two such matches never overlap, so counting the positions is
  \<open>scan(/\bkw\b/).length\<close>.
\<close>

definition starts_with_word :: "string \<Rightarrow> bool" where
  "starts_with_word s = (case s of [] \<Rightarrow> False | d # _ \<Rightarrow> word_char d)"

fun keyword_count :: "string \<Rightarrow> bool \<Rightarrow> string \<Rightarrow> nat" where
  "keyword_count kw pw [] = 0"
| "keyword_count kw pw (c # cs) =
     (if \<not> pw \<and> prefix kw (c # cs) \<and> \<not> starts_with_word (drop (length kw) (c # cs))
      then 1 else 0) + keyword_count kw (word_char c) cs"

text \<open>\<open>\bkw\<close>: the keyword at the start of a word, whatever follows it.\<close>

fun word_start_match :: "string \<Rightarrow> bool \<Rightarrow> string \<Rightarrow> bool" where
  "word_start_match kw pw [] = False"
| "word_start_match kw pw (c # cs) =
     ((\<not> pw \<and> prefix kw (c # cs)) \<or> word_start_match kw (word_char c) cs)"

section \<open>ErbAstParser: fragments and their merging\<close>

datatype block_type = Output | Execution

text \<open>
  A block of \<open>extract_erb_blocks\<close>. \<open>position\<close> is \<open>$~.offset(0)\<close>, the start and end
  offsets of the match; \<open>merged\<close> is the key that only \<open>merge_block_pairs\<close> sets.
\<close>

record erb_block =
  btype :: block_type
  code :: string
  full_match :: string
  position :: "nat \<times> nat"
  merged :: bool

text \<open>
  \<open>has_end_keyword?\<close>: \<open>code.gsub(/'[^']*'|"[^"]*"/, '').match?(/\bend\b/)\<close>.
\<close>

definition has_end_keyword :: "string \<Rightarrow> bool" where
  "has_end_keyword c \<longleftrightarrow> 0 < keyword_count ''end'' False (remove_string_literals c)"

text \<open>
  \<open>opens_block\<close>: \<open>code.match(/\b(do\s*(\|[^|]*\|)?)/) || code.match(/\{\s*(\|[^|]*\|)?/)\<close>.
  Everything after \<open>do\<close> and after the brace is optional, so the first expression
  matches where \<open>do\<close> starts a word and the second where the code has a brace.
\<close>

definition opens_block :: "string \<Rightarrow> bool" where
  "opens_block c \<longleftrightarrow> word_start_match ''do'' False c \<or> CHR ''{'' \<in> set c"

definition has_unmatched_do :: "string \<Rightarrow> bool" where
  "has_unmatched_do c \<longleftrightarrow> opens_block c \<and> \<not> has_end_keyword c"

text \<open>
  The change of \<open>nesting_level\<close> made by one scanned block: the \<open>do\<close> keywords it opens
  minus the \<open>end\<close> keywords it closes, string literals removed.
\<close>

definition nesting_delta :: "string \<Rightarrow> int" where
  "nesting_delta next_code =
     (let code_without_strings = remove_string_literals next_code
      in int (keyword_count ''do'' False code_without_strings)
         - int (keyword_count ''end'' False code_without_strings))"

text \<open>
  The inner \<open>while j < blocks.length && nesting_level > 0\<close> loop, with its four
  variables: \<open>j\<close>, \<open>nesting_level\<close>, \<open>merged_code\<close> and \<open>skip_indices\<close>.
\<close>

function merge_scan ::
  "erb_block list \<Rightarrow> nat \<Rightarrow> int \<Rightarrow> string \<Rightarrow> nat set \<Rightarrow> nat \<times> int \<times> string \<times> nat set" where
  "merge_scan blocks j nesting_level merged_code skip_indices =
     (if j < length blocks \<and> 0 < nesting_level then
        (let next_code = code (blocks ! j)
         in merge_scan blocks (j + 1) (nesting_level + nesting_delta next_code)
              (merged_code @ [newline] @ next_code) (insert j skip_indices))
      else (j, nesting_level, merged_code, skip_indices))"
  by pat_completeness auto
termination
  by (relation "measure (\<lambda>(blocks, j, _). length blocks - j)") auto

declare merge_scan.simps [simp del]

text \<open>
  The body of \<open>blocks.each_with_index\<close>, on the pair of \<open>merged\<close> and \<open>skip_indices\<close>.
\<close>

definition merge_step ::
  "erb_block list \<Rightarrow> nat \<Rightarrow> erb_block list \<times> nat set \<Rightarrow> erb_block list \<times> nat set" where
  "merge_step blocks i st =
     (case st of (merged_acc, skip_indices) \<Rightarrow>
        if i \<in> skip_indices then st
        else
          let block = blocks ! i in
          if has_unmatched_do (code block) then
            (case merge_scan blocks (i + 1) 1 (code block) skip_indices of
               (j, nesting_level, merged_code, skip') \<Rightarrow>
                 (merged_acc @ [block\<lparr>code := merged_code, merged := True\<rparr>], skip'))
          else (merged_acc @ [block], skip_indices))"

definition merge_block_pairs :: "erb_block list \<Rightarrow> erb_block list" where
  "merge_block_pairs blocks = fst (fold (merge_step blocks) [0..<length blocks] ([], {}))"

text \<open>
  The value of \<open>nesting_level\<close> after the blocks \<open>j, ..., k - 1\<close> were scanned from the
  value \<open>n\<close>, and the value of \<open>merged_code\<close> after they were appended to \<open>c\<close>.
\<close>

definition nesting_from :: "erb_block list \<Rightarrow> int \<Rightarrow> nat \<Rightarrow> nat \<Rightarrow> int" where
  "nesting_from blocks n j k = n + (\<Sum>m\<leftarrow>[j..<k]. nesting_delta (code (blocks ! m)))"

definition joined_code :: "erb_block list \<Rightarrow> string \<Rightarrow> nat \<Rightarrow> nat \<Rightarrow> string" where
  "joined_code blocks c j k = c @ concat (map (\<lambda>m. newline # code (blocks ! m)) [j..<k])"

text \<open>Fragments used as concrete inputs below.\<close>

definition fragment :: "string \<Rightarrow> nat \<Rightarrow> erb_block" where
  "fragment c p =
     \<lparr>btype = Output, code = c, full_match = ''<%= '' @ c @ '' %>'',
      position = (p, p + length c + 7), merged = False\<rparr>"

section \<open>ErbAstParser: preprocessing a fragment\<close>

text \<open>
  \<open>^\<close> matches at the start of the string and after every line feed; the functions
  below are tried on each suffix that starts a line. \<open>$\<close> matches at the end of the
  string and before a line feed.
\<close>

fun after_newlines :: "string \<Rightarrow> string list" where
  "after_newlines [] = []"
| "after_newlines (c # cs) = (if c = newline then [cs] else []) @ after_newlines cs"

definition line_starts :: "string \<Rightarrow> string list" where
  "line_starts s = s # after_newlines s"

definition at_line_end :: "string \<Rightarrow> bool" where
  "at_line_end s = (case s of [] \<Rightarrow> True | c # _ \<Rightarrow> c = newline)"

text \<open>
  \<open>/^\w+\s*\(.*\)$/\<close>: word characters, whitespace, an opening parenthesis, and the
  rest of that line ends with a closing parenthesis.
\<close>

definition call_at :: "string \<Rightarrow> bool" where
  "call_at s =
     (takeWhile word_char s \<noteq> [] \<and>
      (case dropWhile space_char (dropWhile word_char s) of
         [] \<Rightarrow> False
       | p # t \<Rightarrow> p = CHR ''('' \<and>
           (let l = takeWhile (\<lambda>c. c \<noteq> newline) t in l \<noteq> [] \<and> last l = CHR '')'')))"

text \<open>
  \<open>/^[...]+$/\<close> for a character class without the line feed: a whole, non-empty line
  of characters of the class.
\<close>

definition class_line_at :: "(char \<Rightarrow> bool) \<Rightarrow> string \<Rightarrow> bool" where
  "class_line_at cls s = (takeWhile cls s \<noteq> [] \<and> at_line_end (dropWhile cls s))"

text \<open>\<open>[\w\.\[\]]\<close> and \<open>[\w\.\[\]"']\<close>.\<close>

definition path_char :: "char \<Rightarrow> bool" where
  "path_char c \<longleftrightarrow> word_char c \<or> c \<in> set ''.[]''"

definition path_or_quote_char :: "char \<Rightarrow> bool" where
  "path_or_quote_char c \<longleftrightarrow> path_char c \<or> c = CHR 0x22 \<or> c = CHR 0x27"

text \<open>\<open>/^(kw1|kw2|...)\b/\<close>: a line starts with one of the keywords as a whole word.\<close>

definition keyword_at :: "string list \<Rightarrow> string \<Rightarrow> bool" where
  "keyword_at kws s =
     list_ex (\<lambda>kw. prefix kw s \<and> \<not> starts_with_word (drop (length kw) s)) kws"

text \<open>\<open>/^@?\w+\s*[=\[]/\<close>.\<close>

definition assign_at :: "string \<Rightarrow> bool" where
  "assign_at s =
     (let s1 = (case s of [] \<Rightarrow> [] | c # t \<Rightarrow> if c = CHR ''@'' then t else s)
      in takeWhile word_char s1 \<noteq> [] \<and>
         (case dropWhile space_char (dropWhile word_char s1) of
            [] \<Rightarrow> False
          | p # _ \<Rightarrow> p = CHR ''='' \<or> p = CHR ''[''))"

definition match_line :: "(string \<Rightarrow> bool) \<Rightarrow> string \<Rightarrow> bool" where
  "match_line at s = list_ex at (line_starts s)"

definition stimulus_keywords :: "string list" where
  "stimulus_keywords = [''data'', ''controller'', ''target'', ''action'', ''value'']"

definition control_keywords :: "string list" where
  "control_keywords = [''if'', ''unless'', ''case'', ''when'', ''else'', ''elsif'', ''end'',
     ''do'', ''while'', ''for'', ''begin'', ''rescue'', ''ensure'']"

definition definition_keywords :: "string list" where
  "definition_keywords = [''def'', ''class'', ''module'']"

text \<open>
  The \<open>unless has_end_keyword?(processed)\<close> step: a fragment with a block opener and no
  \<open>end\<close> gets an \<open>end\<close> line.
\<close>

definition append_end :: "string \<Rightarrow> string" where
  "append_end processed =
     (if \<not> has_end_keyword processed then
        if str_include processed '' do |'' then processed @ newline # ''end''
        else if str_include processed '' do'' \<and> \<not> str_include processed ''|''
        then processed @ newline # ''end''
        else processed
      else processed)"

text \<open>
  \<open>if processed.count(o) > processed.count(c) then processed += " c" * (difference)\<close>.
\<close>

definition balance :: "char \<Rightarrow> char \<Rightarrow> string \<Rightarrow> string" where
  "balance opn cls processed =
     (if str_count processed cls < str_count processed opn
      then processed @ str_times [CHR '' '', cls] (str_count processed opn - str_count processed cls)
      else processed)"

definition auto_close :: "string \<Rightarrow> string" where
  "auto_close c =
     balance (CHR ''('') (CHR '')'')
       (balance (CHR ''['') (CHR '']'') (balance (CHR ''{'') (CHR ''}'') (append_end c)))"

definition preprocess_erb_code :: "string \<Rightarrow> string" where
  "preprocess_erb_code c =
     (if \<not> list_ex (\<lambda>keyword. str_include c keyword) stimulus_keywords then c
      else if match_line call_at (strip c) \<or> match_line (class_line_at path_char) (strip c)
      then c
      else if match_line (keyword_at control_keywords) (strip c) then c
      else if match_line (keyword_at definition_keywords) (strip c) then c
      else if match_line assign_at (strip c)
              \<or> match_line (class_line_at path_or_quote_char) (strip c)
      then c
      else auto_close c)"

text \<open>The strings that the balancing steps append: blanks and closing brackets.\<close>

definition closers :: "string \<Rightarrow> bool" where
  "closers t \<longleftrightarrow> set t \<subseteq> {CHR '' '', CHR ''}'', CHR '']'', CHR '')''}"

section \<open>ErbAstParser: extracting the fragments\<close>

text \<open>
  \<open>@content.scan(/<%=\s*(.*?)\s*%>/m)\<close> and \<open>@content.scan(/<%\s*(.*?)\s*%>/m)\<close>: a match
  starts at an opening delimiter that has a closing \<open>%>\<close> after it and ends with the
  first such \<open>%>\<close>; the scan goes on behind the match. The result holds the offsets of
  the match and the text between the delimiters, of which the source takes the \<open>strip\<close>.
\<close>

fun find_close :: "string \<Rightarrow> nat option" where
  "find_close [] = None"
| "find_close (c # cs) =
     (if prefix ''%>'' (c # cs) then Some 0 else map_option Suc (find_close cs))"

function scan_delimited :: "string \<Rightarrow> nat \<Rightarrow> string \<Rightarrow> (nat \<times> nat \<times> string) list" where
  "scan_delimited opn off [] = []"
| "scan_delimited opn off (c # cs) =
     (if prefix opn (c # cs) then
        (case find_close (drop (length opn) (c # cs)) of
           Some k \<Rightarrow>
             (off, off + length opn + k + 2, take k (drop (length opn) (c # cs)))
               # scan_delimited opn (off + length opn + k + 2)
                   (drop (length opn + k + 2) (c # cs))
         | None \<Rightarrow> scan_delimited opn (off + 1) cs)
      else scan_delimited opn (off + 1) cs)"
  by pat_completeness auto
termination
  by (relation "measure (\<lambda>(opn, off, s). length s)") auto

definition str_slice :: "string \<Rightarrow> nat \<Rightarrow> nat \<Rightarrow> string" where
  "str_slice s a b = take (b - a) (drop a s)"

definition extract_erb_blocks :: "string \<Rightarrow> erb_block list" where
  "extract_erb_blocks content =
     (let outputs =
            map (\<lambda>(a, b, g). \<lparr>btype = Output, code = strip g,
                               full_match = str_slice content a b, position = (a, b),
                               merged = False\<rparr>)
              (scan_delimited ''<%='' 0 content);
          executions =
            map (\<lambda>(a, b, g). \<lparr>btype = Execution, code = strip g,
                               full_match = str_slice content a b, position = (a, b),
                               merged = False\<rparr>)
              (filter (\<lambda>(a, b, g). \<not> prefix ''='' (strip g)) (scan_delimited ''<%'' 0 content))
      in merge_block_pairs (sort_key (\<lambda>block. fst (position block)) (outputs @ executions)))"

text \<open>The object built by \<open>ErbAstParser.new(content)\<close>.\<close>

record erb_ast_parser =
  content :: string
  erb_blocks :: "erb_block list"

definition erb_ast_parser_new :: "string \<Rightarrow> erb_ast_parser" where
  "erb_ast_parser_new c = \<lparr>content = c, erb_blocks = extract_erb_blocks c\<rparr>"

definition calculate_line_number :: "erb_ast_parser \<Rightarrow> nat \<Rightarrow> nat" where
  "calculate_line_number p pos = str_count (take pos (content p)) newline + 1"

section \<open>The syntax trees of the parser gem\<close>

text \<open>
  \<open>Parser::CurrentRuby.parse\<close> is the parser gem, not code of the validator: it is a
  parameter \<open>parse\<close> of the model, with \<open>None\<close> for a raised \<open>Parser::SyntaxError\<close>. A
  \<open>Parser::AST::Node\<close> has a \<open>type\<close> symbol and \<open>children\<close>, which are nodes, strings,
  symbols, integers or \<open>nil\<close>; \<open>parse\<close> of an empty source is \<open>nil\<close>. The parser builds
  \<open>hash\<close> nodes with node children only, \<open>pair\<close> nodes with two node children, \<open>str\<close>
  nodes holding one string and \<open>sym\<close> nodes holding one symbol.
\<close>

datatype ast =
    Node string "ast list"
  | StrVal string
  | SymVal string
  | IntVal int
  | NilVal

datatype error = SyntaxError | NoMethodError | CssSyntaxError

text \<open>\<open>node.type == t\<close> on something that is a node, and \<open>children[i]\<close>.\<close>

definition has_type :: "ast \<Rightarrow> string \<Rightarrow> bool" where
  "has_type x t = (case x of Node t' _ \<Rightarrow> t' = t | _ \<Rightarrow> False)"

definition children :: "ast \<Rightarrow> ast list" where
  "children x = (case x of Node _ cs \<Rightarrow> cs | _ \<Rightarrow> [])"

definition child :: "ast \<Rightarrow> nat \<Rightarrow> ast" where
  "child x i = (if i < length (children x) then children x ! i else NilVal)"

section \<open>ErbAstParser: the action query\<close>

text \<open>\<open>action_string.scan(/\S+/)\<close>: the maximal runs of characters that are not whitespace.\<close>

function scan_tokens :: "string \<Rightarrow> string list" where
  "scan_tokens s =
     (let s' = dropWhile space_char s
      in if s' = [] then []
         else takeWhile (\<lambda>c. \<not> space_char c) s'
                # scan_tokens (dropWhile (\<lambda>c. \<not> space_char c) s'))"
  by pat_completeness auto
termination
proof (relation "measure length")
  fix s s' :: string
  assume a: "s' = dropWhile space_char s" "s' \<noteq> []"
  then have "\<not> space_char (hd s')"
    using hd_dropWhile by metis
  with a(2) have "dropWhile (\<lambda>c. \<not> space_char c) s' = dropWhile (\<lambda>c. \<not> space_char c) (tl s')"
    by (cases s') auto
  moreover have "length (dropWhile (\<lambda>c. \<not> space_char c) (tl s')) \<le> length (tl s')"
    by (rule length_dropWhile_le)
  moreover have "length s' \<le> length s"
    unfolding a(1) by (rule length_dropWhile_le)
  ultimately show "(dropWhile (\<lambda>c. \<not> space_char c) s', s) \<in> measure length"
    using a(2) by (cases s') auto
qed simp

declare scan_tokens.simps [simp del]

text \<open>
  \<open>\w+(?:sep\w+)*\<close> at the start of a string, as many groups as there are: the matched
  text and the rest.
\<close>

function words_sep :: "char \<Rightarrow> string \<Rightarrow> (string \<times> string) option" where
  "words_sep sep s =
     (let w = takeWhile word_char s; r = dropWhile word_char s
      in if w = [] then None
         else (case r of
                 d # e # r' \<Rightarrow>
                   if d = sep \<and> word_char e then
                     (case words_sep sep (e # r') of
                        Some (m, rest) \<Rightarrow> Some (w @ sep # m, rest)
                      | None \<Rightarrow> Some (w, r))
                   else Some (w, r)
               | _ \<Rightarrow> Some (w, r)))"
  by pat_completeness auto
termination
  apply (relation "measure (\<lambda>(sep, s). length s)")
   apply simp
  apply simp
  apply (metis length_dropWhile_le length_Cons Suc_le_lessD le_SucI less_Suc_eq_le)
  done

declare words_sep.simps [simp del]

record parsed_action =
  pa_action :: string
  pa_event :: "string option"
  pa_controller :: string
  pa_method :: string

text \<open>
  \<open>(\w+(?:-\w+)*)#(\w+)(?:@\w+)?$\<close> on a token, which has no line feed: the
  controller and the method.
\<close>

definition controller_method :: "string \<Rightarrow> (string \<times> string) option" where
  "controller_method s =
     (case words_sep (CHR ''-'') s of
        None \<Rightarrow> None
      | Some (ctrl, r) \<Rightarrow>
          (case r of
             [] \<Rightarrow> None
           | h # r2 \<Rightarrow>
               if h \<noteq> CHR ''#'' then None
               else
                 let m = takeWhile word_char r2; r3 = dropWhile word_char r2
                 in if m = [] then None
                    else (case r3 of
                            [] \<Rightarrow> Some (ctrl, m)
                          | a # opt \<Rightarrow>
                              if a = CHR ''@'' \<and> opt \<noteq> [] \<and> list_all word_char opt
                              then Some (ctrl, m) else None)))"

text \<open>\<open>(\w+(?:\.\w+)*)->\<close> at the start of a token: the event and the rest.\<close>

definition event_prefix :: "string \<Rightarrow> (string \<times> string) option" where
  "event_prefix s =
     (case words_sep (CHR ''.'') s of
        None \<Rightarrow> None
      | Some (ev, r) \<Rightarrow> if prefix ''->'' r then Some (ev, drop 2 r) else None)"

text \<open>
  \<open>action.match(/^(?:(\w+(?:\.\w+)*)->)?(\w+(?:-\w+)*)#(\w+)(?:@\w+)?$/)\<close>: first with
  the event group, then without it.
\<close>

definition match_action :: "string \<Rightarrow> parsed_action option" where
  "match_action tok =
     (case (case event_prefix tok of
              None \<Rightarrow> None
            | Some (ev, r) \<Rightarrow> map_option (\<lambda>(c, m). (Some ev, c, m)) (controller_method r)) of
        Some (ev, c, m) \<Rightarrow>
          Some \<lparr>pa_action = tok, pa_event = ev, pa_controller = c, pa_method = m\<rparr>
      | None \<Rightarrow>
          map_option (\<lambda>(c, m). \<lparr>pa_action = tok, pa_event = None, pa_controller = c,
                                 pa_method = m\<rparr>)
            (controller_method tok))"

definition parse_action_string :: "string \<Rightarrow> parsed_action list" where
  "parse_action_string action_string = List.map_filter match_action (scan_tokens action_string)"

record action_match =
  am_action_string :: string
  am_parsed_action :: parsed_action
  am_key_node :: ast
  am_value_node :: ast

text \<open>
  The body of the \<open>hash_node.children.each\<close> loop of \<open>find_actions_in_hash\<close> for one
  child; \<open>controller_name\<close> is \<open>None\<close> for \<open>nil\<close>.
\<close>

definition is_action_key :: "ast \<Rightarrow> bool" where
  "is_action_key key_node \<longleftrightarrow>
     (has_type key_node ''str'' \<and> child key_node 0 = StrVal ''action'') \<or>
     (has_type key_node ''sym'' \<and> child key_node 0 = SymVal ''action'')"

definition actions_in_pair :: "ast \<Rightarrow> string option \<Rightarrow> action_match list" where
  "actions_in_pair pair_node controller_name =
     (if \<not> has_type pair_node ''pair'' then []
      else
        let key_node = child pair_node 0; value_node = child pair_node 1 in
        if key_node = NilVal \<or> value_node = NilVal then []
        else if is_action_key key_node \<and> has_type value_node ''str'' then
          (case child value_node 0 of
             StrVal action_string \<Rightarrow>
               map (\<lambda>action. \<lparr>am_action_string = action_string, am_parsed_action = action,
                               am_key_node = key_node, am_value_node = value_node\<rparr>)
                 (filter (\<lambda>action. controller_name = None
                                     \<or> controller_name = Some (pa_controller action))
                    (parse_action_string action_string))
           | _ \<Rightarrow> [])
        else [])"

definition find_actions_in_hash :: "ast \<Rightarrow> string option \<Rightarrow> action_match list" where
  "find_actions_in_hash hash_node controller_name =
     concat (map (\<lambda>pair_node. actions_in_pair pair_node controller_name) (children hash_node))"

definition find_actions_in_method_call :: "ast \<Rightarrow> string option \<Rightarrow> action_match list" where
  "find_actions_in_method_call send_node controller_name =
     (if 2 \<le> length (children send_node) then
        concat (map (\<lambda>arg. if has_type arg ''hash'' then find_actions_in_hash arg controller_name
                            else [])
                  (drop 2 (children send_node)))
      else [])"

fun find_actions_in_ast :: "ast \<Rightarrow> string option \<Rightarrow> action_match list" where
  "find_actions_in_ast (Node t cs) controller_name =
     (if t = ''hash'' then find_actions_in_hash (Node t cs) controller_name
      else if t = ''send'' then find_actions_in_method_call (Node t cs) controller_name
      else [])
     @ concat (map (\<lambda>c. find_actions_in_ast c controller_name) cs)"
| "find_actions_in_ast _ controller_name = []"

section \<open>ErbAstParser: the target, value and controller queries\<close>

text \<open>\<open>String#gsub('-', '_')\<close> and the like, for single characters.\<close>

definition tr_char :: "char \<Rightarrow> char \<Rightarrow> string \<Rightarrow> string" where
  "tr_char a b s = map (\<lambda>c. if c = a then b else c) s"

definition lower_char :: "char \<Rightarrow> bool" where
  "lower_char c \<longleftrightarrow> c \<in> set ''abcdefghijklmnopqrstuvwxyz''"

definition upper_char :: "char \<Rightarrow> bool" where
  "upper_char c \<longleftrightarrow> c \<in> set ''ABCDEFGHIJKLMNOPQRSTUVWXYZ''"

definition downcase_char :: "char \<Rightarrow> char" where
  "downcase_char c =
     (case map_of (zip ''ABCDEFGHIJKLMNOPQRSTUVWXYZ'' ''abcdefghijklmnopqrstuvwxyz'') c of
        Some d \<Rightarrow> d | None \<Rightarrow> c)"

definition upcase_char :: "char \<Rightarrow> char" where
  "upcase_char c =
     (case map_of (zip ''abcdefghijklmnopqrstuvwxyz'' ''ABCDEFGHIJKLMNOPQRSTUVWXYZ'') c of
        Some d \<Rightarrow> d | None \<Rightarrow> c)"

definition downcase :: "string \<Rightarrow> string" where
  "downcase s = map downcase_char s"

text \<open>
  \<open>gsub(/([a-z])([A-Z])/, '\1' + sep + '\2')\<close>: the separator goes between a lower-case
  letter and the upper-case letter after it; the scan goes on behind that letter.
\<close>

fun camel_sep :: "char \<Rightarrow> string \<Rightarrow> string" where
  "camel_sep sep (c # d # cs) =
     (if lower_char c \<and> upper_char d then c # sep # d # camel_sep sep cs
      else c # camel_sep sep (d # cs))"
| "camel_sep sep cs = cs"

datatype match_type = HashStringKey | HashSymbolKey

record target_match =
  tm_type :: match_type
  tm_controller :: string
  tm_target :: string
  tm_key_node :: ast
  tm_value_node :: ast

definition targets_in_pair :: "ast \<Rightarrow> string \<Rightarrow> string \<Rightarrow> target_match list" where
  "targets_in_pair pair_node controller_name target_name =
     (if \<not> has_type pair_node ''pair'' then []
      else
        let key_node = child pair_node 0; value_node = child pair_node 1 in
        if key_node = NilVal \<or> value_node = NilVal then []
        else
          (if has_type key_node ''str'' \<and> has_type value_node ''str'' \<and>
              child key_node 0 = StrVal (controller_name @ ''-target'') \<and>
              child value_node 0 = StrVal target_name
           then [\<lparr>tm_type = HashStringKey, tm_controller = controller_name,
                   tm_target = target_name, tm_key_node = key_node,
                   tm_value_node = value_node\<rparr>]
           else [])
          @
          (if has_type key_node ''sym'' \<and> has_type value_node ''str'' \<and>
              (child key_node 0 = SymVal (tr_char (CHR ''-'') (CHR ''_'') controller_name @ ''_target'')
               \<or> child key_node 0 = SymVal (controller_name @ ''-target'')) \<and>
              child value_node 0 = StrVal target_name
           then [\<lparr>tm_type = HashSymbolKey, tm_controller = controller_name,
                   tm_target = target_name, tm_key_node = key_node,
                   tm_value_node = value_node\<rparr>]
           else []))"

definition find_targets_in_hash :: "ast \<Rightarrow> string \<Rightarrow> string \<Rightarrow> target_match list" where
  "find_targets_in_hash hash_node controller_name target_name =
     concat (map (\<lambda>pair_node. targets_in_pair pair_node controller_name target_name)
               (children hash_node))"

definition find_targets_in_method_call :: "ast \<Rightarrow> string \<Rightarrow> string \<Rightarrow> target_match list" where
  "find_targets_in_method_call send_node controller_name target_name =
     (if 2 \<le> length (children send_node) then
        concat (map (\<lambda>arg. if has_type arg ''hash''
                            then find_targets_in_hash arg controller_name target_name else [])
                  (drop 2 (children send_node)))
      else [])"

fun find_targets_in_ast :: "ast \<Rightarrow> string \<Rightarrow> string \<Rightarrow> target_match list" where
  "find_targets_in_ast (Node t cs) controller_name target_name =
     (if t = ''hash'' then find_targets_in_hash (Node t cs) controller_name target_name
      else if t = ''send'' then find_targets_in_method_call (Node t cs) controller_name target_name
      else [])
     @ concat (map (\<lambda>c. find_targets_in_ast c controller_name target_name) cs)"
| "find_targets_in_ast _ controller_name target_name = []"

record value_match =
  vm_type :: match_type
  vm_controller :: string
  vm_value :: string
  vm_key_node :: ast
  vm_value_node :: ast

definition values_in_pair :: "ast \<Rightarrow> string \<Rightarrow> string \<Rightarrow> value_match list" where
  "values_in_pair pair_node controller_name value_name =
     (if \<not> has_type pair_node ''pair'' then []
      else
        let key_node = child pair_node 0; value_node = child pair_node 1;
            kebab_value_name = downcase (camel_sep (CHR ''-'') value_name) in
        if key_node = NilVal \<or> value_node = NilVal then []
        else
          (if has_type key_node ''str'' \<and>
              child key_node 0 = StrVal (controller_name @ ''-'' @ kebab_value_name @ ''-value'')
           then [\<lparr>vm_type = HashStringKey, vm_controller = controller_name,
                   vm_value = value_name, vm_key_node = key_node, vm_value_node = value_node\<rparr>]
           else [])
          @
          (if has_type key_node ''sym'' \<and>
              (child key_node 0 =
                 SymVal (tr_char (CHR ''-'') (CHR ''_'') controller_name @ ''_''
                         @ downcase (camel_sep (CHR ''_'') value_name) @ ''_value'')
               \<or> child key_node 0 =
                 SymVal (controller_name @ ''-'' @ kebab_value_name @ ''-value''))
           then [\<lparr>vm_type = HashSymbolKey, vm_controller = controller_name,
                   vm_value = value_name, vm_key_node = key_node, vm_value_node = value_node\<rparr>]
           else []))"

definition find_values_in_hash :: "ast \<Rightarrow> string \<Rightarrow> string \<Rightarrow> value_match list" where
  "find_values_in_hash hash_node controller_name value_name =
     concat (map (\<lambda>pair_node. values_in_pair pair_node controller_name value_name)
               (children hash_node))"

definition find_values_in_method_call :: "ast \<Rightarrow> string \<Rightarrow> string \<Rightarrow> value_match list" where
  "find_values_in_method_call send_node controller_name value_name =
     (if 2 \<le> length (children send_node) then
        concat (map (\<lambda>arg. if has_type arg ''hash''
                            then find_values_in_hash arg controller_name value_name else [])
                  (drop 2 (children send_node)))
      else [])"

fun find_values_in_ast :: "ast \<Rightarrow> string \<Rightarrow> string \<Rightarrow> value_match list" where
  "find_values_in_ast (Node t cs) controller_name value_name =
     (if t = ''hash'' then find_values_in_hash (Node t cs) controller_name value_name
      else if t = ''send'' then find_values_in_method_call (Node t cs) controller_name value_name
      else [])
     @ concat (map (\<lambda>c. find_values_in_ast c controller_name value_name) cs)"
| "find_values_in_ast _ controller_name value_name = []"

text \<open>
  \<open>contains_controller_in_ast?\<close>. Its early \<open>return true\<close> exits make it the disjunction
  of its tests.
\<close>

definition controller_pair :: "ast \<Rightarrow> string \<Rightarrow> bool" where
  "controller_pair pair_node controller_name \<longleftrightarrow>
     has_type pair_node ''pair'' \<and>
     (let key_node = child pair_node 0; value_node = child pair_node 1 in
      ((has_type key_node ''str'' \<and> child key_node 0 = StrVal ''controller'') \<or>
       (has_type key_node ''sym'' \<and> child key_node 0 = SymVal ''controller'')) \<and>
      has_type value_node ''str'' \<and> child value_node 0 = StrVal controller_name)"

function contains_controller_in_ast :: "ast \<Rightarrow> string \<Rightarrow> bool" where
  "contains_controller_in_ast (Node t cs) controller_name \<longleftrightarrow>
     (t = ''hash'' \<and> list_ex (\<lambda>pair_node. controller_pair pair_node controller_name) cs) \<or>
     (t = ''send'' \<and> list_ex (\<lambda>arg. contains_controller_in_ast arg controller_name) (drop 2 cs)) \<or>
     list_ex (\<lambda>c. contains_controller_in_ast c controller_name) cs"
| "contains_controller_in_ast (StrVal v) controller_name \<longleftrightarrow> False"
| "contains_controller_in_ast (SymVal v) controller_name \<longleftrightarrow> False"
| "contains_controller_in_ast (IntVal i) controller_name \<longleftrightarrow> False"
| "contains_controller_in_ast NilVal controller_name \<longleftrightarrow> False"
  by pat_completeness auto
termination
proof (relation "measure (\<lambda>(x, c). size x)")
  fix t :: string and cs :: "ast list" and x :: ast
  assume "x \<in> set (drop 2 cs)"
  then have "x \<in> set cs" by (rule in_set_dropD)
  then have "size x \<le> size_list size cs" by (rule size_list_estimation') simp
  then show "((x, c), (Node t cs, c)) \<in> measure (\<lambda>(x, c). size x)" for c :: string
    by simp
next
  fix t :: string and cs :: "ast list" and x :: ast
  assume "x \<in> set cs"
  then have "size x \<le> size_list size cs" by (rule size_list_estimation') simp
  then show "((x, c), (Node t cs, c)) \<in> measure (\<lambda>(x, c). size x)" for c :: string
    by simp
qed simp

section \<open>ErbAstParser: the queries over the fragments of a file\<close>

definition should_parse_for_targets :: "string \<Rightarrow> string \<Rightarrow> string \<Rightarrow> bool" where
  "should_parse_for_targets c controller_name target_name \<longleftrightarrow>
     (if \<not> str_include c ''data'' then False
      else if str_include c ''target'' \<or> str_include c target_name then True
      else if str_include c controller_name then True
      else False)"

definition should_parse_for_actions :: "string \<Rightarrow> bool" where
  "should_parse_for_actions c \<longleftrightarrow> str_include c ''data'' \<and> str_include c ''action''"

definition should_parse_for_values :: "string \<Rightarrow> string \<Rightarrow> string \<Rightarrow> bool" where
  "should_parse_for_values c controller_name value_name \<longleftrightarrow>
     (if \<not> str_include c ''data'' then False
      else if str_include c ''value'' \<or> str_include c value_name then True
      else if str_include c controller_name then True
      else False)"

text \<open>
  An \<open>each\<close> loop that appends the results of its body to \<open>results\<close>; an exception raised
  in the body leaves the loop and the method.
\<close>

fun each_collect :: "('a \<Rightarrow> error + 'b list) \<Rightarrow> 'a list \<Rightarrow> error + 'b list" where
  "each_collect body [] = Inr []"
| "each_collect body (x # xs) =
     (case body x of
        Inl e \<Rightarrow> Inl e
      | Inr r \<Rightarrow> (case each_collect body xs of Inl e \<Rightarrow> Inl e | Inr rs \<Rightarrow> Inr (r @ rs)))"

record 'm erb_result =
  r_block :: erb_block
  r_match :: 'm
  line_number :: nat

text \<open>
  The three queries have one body: the keyword pre-filter, \<open>preprocess_erb_code\<close>, the
  parser (not rescued: "fail fast on errors"), the walk over the tree.
\<close>

definition query_block ::
  "(string \<Rightarrow> ast option) \<Rightarrow> erb_ast_parser \<Rightarrow> (string \<Rightarrow> bool) \<Rightarrow> (ast \<Rightarrow> 'm list) \<Rightarrow>
   erb_block \<Rightarrow> error + 'm erb_result list" where
  "query_block parse p should_parse find_in_ast block =
     (if \<not> should_parse (code block) then Inr []
      else
        (case parse (preprocess_erb_code (code block)) of
           None \<Rightarrow> Inl SyntaxError
         | Some tree \<Rightarrow>
             Inr (map (\<lambda>m. \<lparr>r_block = block, r_match = m,
                             line_number = calculate_line_number p (fst (position block))\<rparr>)
                    (find_in_ast tree))))"

definition find_stimulus_targets ::
  "(string \<Rightarrow> ast option) \<Rightarrow> erb_ast_parser \<Rightarrow> string \<Rightarrow> string \<Rightarrow>
   error + target_match erb_result list" where
  "find_stimulus_targets parse p controller_name target_name =
     each_collect
       (query_block parse p (\<lambda>c. should_parse_for_targets c controller_name target_name)
          (\<lambda>tree. find_targets_in_ast tree controller_name target_name))
       (erb_blocks p)"

definition find_stimulus_actions ::
  "(string \<Rightarrow> ast option) \<Rightarrow> erb_ast_parser \<Rightarrow> string option \<Rightarrow>
   error + action_match erb_result list" where
  "find_stimulus_actions parse p controller_name =
     each_collect
       (query_block parse p should_parse_for_actions
          (\<lambda>tree. find_actions_in_ast tree controller_name))
       (erb_blocks p)"

definition find_stimulus_values ::
  "(string \<Rightarrow> ast option) \<Rightarrow> erb_ast_parser \<Rightarrow> string \<Rightarrow> string \<Rightarrow>
   error + value_match erb_result list" where
  "find_stimulus_values parse p controller_name value_name =
     each_collect
       (query_block parse p (\<lambda>c. should_parse_for_values c controller_name value_name)
          (\<lambda>tree. find_values_in_ast tree controller_name value_name))
       (erb_blocks p)"

text \<open>
  The scan of the example \<open>provides controller coverage statistics\<close> for a controller
  declared in a fragment: here the parser and the walk are inside \<open>begin ... rescue\<close>,
  and a fragment that raises is skipped.
\<close>

definition found_in_erb :: "(string \<Rightarrow> ast option) \<Rightarrow> erb_ast_parser \<Rightarrow> string \<Rightarrow> bool" where
  "found_in_erb parse p controller \<longleftrightarrow>
     list_ex (\<lambda>block.
        str_include (code block) ''data'' \<and> str_include (code block) ''controller'' \<and>
        (case parse (preprocess_erb_code (code block)) of
           None \<Rightarrow> False
         | Some tree \<Rightarrow> contains_controller_in_ast tree controller))
       (erb_blocks p)"

text \<open>
  Parser results for the fragments used as concrete inputs below: the tree of a
  well-formed call (in the fourth, the action pair is in the hash given to \<open>merge\<close>), and
  a syntax error for the source with an unmatched closing
  parenthesis and for the call followed by a line \<open>end\<close> that closes nothing. No other
  source is looked up.
\<close>

definition sample_parse :: "string \<Rightarrow> ast option" where
  "sample_parse src =
     (if src = ''tag.div data: { action: \"click->menu#open\" }'' then
        Some (Node ''send'' [Node ''send'' [NilVal, SymVal ''tag''], SymVal ''div'',
                Node ''hash'' [Node ''pair'' [Node ''sym'' [SymVal ''data''],
                  Node ''hash'' [Node ''pair'' [Node ''sym'' [SymVal ''action''],
                    Node ''str'' [StrVal ''click->menu#open'']]]]]])
      else if src = ''tag.div data: { controller: \"menu\" }'' then
        Some (Node ''send'' [Node ''send'' [NilVal, SymVal ''tag''], SymVal ''div'',
                Node ''hash'' [Node ''pair'' [Node ''sym'' [SymVal ''data''],
                  Node ''hash'' [Node ''pair'' [Node ''sym'' [SymVal ''controller''],
                    Node ''str'' [StrVal ''menu'']]]]]])
      else if src = ''tag.div data: { \"menu-target\" => \"item\" }'' then
        Some (Node ''send'' [Node ''send'' [NilVal, SymVal ''tag''], SymVal ''div'',
                Node ''hash'' [Node ''pair'' [Node ''sym'' [SymVal ''data''],
                  Node ''hash'' [Node ''pair'' [Node ''str'' [StrVal ''menu-target''],
                    Node ''str'' [StrVal ''item'']]]]]])
      else if src = ''tag.div data: base.merge(action: \"click->menu#open\")'' then
        Some (Node ''send'' [Node ''send'' [NilVal, SymVal ''tag''], SymVal ''div'',
                Node ''hash'' [Node ''pair'' [Node ''sym'' [SymVal ''data''],
                  Node ''send'' [Node ''send'' [NilVal, SymVal ''base''], SymVal ''merge'',
                    Node ''hash'' [Node ''pair'' [Node ''sym'' [SymVal ''action''],
                      Node ''str'' [StrVal ''click->menu#open'']]]]]]])
      else if src = ''tag.div data: { action: \"click->menu#open\" } )'' then None
      else if src = ''tag.span data: { \"menu-target\" => \"other\" }'' @ newline # ''end'' then None
      else None)"

text \<open>A view whose only fragment has an unmatched closing parenthesis.\<close>

definition bad_view :: string where
  "bad_view = ''<p><%= tag.div data: { action: \"click->menu#open\" } ) %></p>''"

section \<open>The markup document\<close>

text \<open>
  \<open>Nokogiri::HTML::DocumentFragment.parse(content)\<close> is the Nokogiri gem: the parsed
  document is an input of the model, a forest of elements with their attributes (text
  nodes carry no attribute and are left out). Nokogiri compares nodes by identity; here
  a node is identified by its path, the child indices from the root, and comes with its
  ancestors, nearest first, as \<open>element.ancestors\<close> lists them.
\<close>

datatype element = Element (tag: string) (attrs: "(string \<times> string) list") (kids: "element list")

type_synonym path = "nat list"

datatype dom_node =
  DomNode (node_path: path) (node_elem: element) (node_ancestors: "(path \<times> element) list")

text \<open>The element and its descendants, and a list of siblings, in document order.\<close>

fun elem_nodes :: "path \<Rightarrow> (path \<times> element) list \<Rightarrow> element \<Rightarrow> dom_node list"
  and kids_nodes :: "path \<Rightarrow> (path \<times> element) list \<Rightarrow> nat \<Rightarrow> element list \<Rightarrow> dom_node list" where
  "elem_nodes p anc (Element t a ks) =
     DomNode p (Element t a ks) anc # kids_nodes p ((p, Element t a ks) # anc) 0 ks"
| "kids_nodes p anc i [] = []"
| "kids_nodes p anc i (k # ks) = elem_nodes (p @ [i]) anc k @ kids_nodes p anc (Suc i) ks"

text \<open>All elements of the document, as \<open>doc.css\<close> searches them.\<close>

definition doc_nodes :: "element list \<Rightarrow> dom_node list" where
  "doc_nodes doc = kids_nodes [] [] 0 doc"

text \<open>The descendants of an element, as \<open>element.css\<close> searches them.\<close>

definition descendants :: "dom_node \<Rightarrow> dom_node list" where
  "descendants n =
     kids_nodes (node_path n) ((node_path n, node_elem n) # node_ancestors n) 0
       (kids (node_elem n))"

text \<open>\<open>element[name]\<close> and \<open>element.has_attribute?(name)\<close>.\<close>

definition attr :: "dom_node \<Rightarrow> string \<Rightarrow> string option" where
  "attr n name = map_of (attrs (node_elem n)) name"

definition has_attribute :: "dom_node \<Rightarrow> string \<Rightarrow> bool" where
  "has_attribute n name \<longleftrightarrow> attr n name \<noteq> None"

text \<open>\<open>element[name]&.include?(s)\<close>.\<close>

definition attr_includes :: "dom_node \<Rightarrow> string \<Rightarrow> string \<Rightarrow> bool" where
  "attr_includes n name s = (case attr n name of None \<Rightarrow> False | Some v \<Rightarrow> str_include v s)"

text \<open>
  The selectors that the validator builds itself: \<open>[name]\<close> selects the elements with
  the attribute, \<open>[name*='s']\<close> those whose attribute value contains \<open>s\<close>. The second is
  built by interpolation; it is the selector meant for names that need no escaping
  between the quotes: non-empty, made of word characters and hyphens.
\<close>

definition css_has_attr :: "dom_node list \<Rightarrow> string \<Rightarrow> dom_node list" where
  "css_has_attr nodes name = filter (\<lambda>n. has_attribute n name) nodes"

definition css_attr_contains :: "dom_node list \<Rightarrow> string \<Rightarrow> string \<Rightarrow> dom_node list" where
  "css_attr_contains nodes name s = filter (\<lambda>n. attr_includes n name s) nodes"

definition selector_name :: "string \<Rightarrow> bool" where
  "selector_name s \<longleftrightarrow> s \<noteq> [] \<and> list_all (\<lambda>c. word_char c \<or> c = CHR ''-'') s"

section \<open>The validator: controller metadata and findings\<close>

text \<open>
  One entry of \<open>controller_data\<close>, as far as the checks below read it; the map itself is
  built from the output of \<open>bin/parse_ts_controller.js\<close> and is an input of the model.
\<close>

record controller_info =
  targets :: "string list"
  optional_targets :: "string list"
  outlets :: "string list"
  methods :: "string list"
  targets_with_skip :: "string list"

text \<open>
  The validator collects its findings in separate arrays; a finding is tagged here with
  the array it is appended to, and carries the fields of its hash except the suggestion
  text: \<open>registration_errors\<close>, \<open>target_errors\<close>, \<open>target_scope_errors\<close> (error type
  \<open>out_of_scope\<close>), \<open>outlet_errors\<close> (controller, outlet, selector, file, error type),
  \<open>scope_errors\<close> (action, controller, file, is_partial, parent_files, source, error
  type) and \<open>action_errors\<close> (action, controller, method, file, available_methods,
  source).
\<close>

datatype finding =
    RegistrationError string string
  | TargetError string string string
  | TargetScopeError string string string
  | OutletError string string "string option" string string
  | ScopeError string string string bool "string list" "string option" string
  | ActionError string string string string "string list" "string option"

section \<open>The validator: targets\<close>

text \<open>
  \<open>is_outside_scope\<close>: none of the ancestors of the element is the controller element.
\<close>

definition is_outside_scope :: "dom_node \<Rightarrow> dom_node \<Rightarrow> bool" where
  "is_outside_scope controller_element element \<longleftrightarrow>
     \<not> list_ex (\<lambda>ancestor. fst ancestor = node_path controller_element) (node_ancestors element)"

text \<open>
  The body of \<open>controller_data[controller_name][:targets].each\<close> for one target. The
  two calls of \<open>find_stimulus_targets\<close> are not rescued; the result of the second is not
  used.
\<close>

definition check_target ::
  "(string \<Rightarrow> ast option) \<Rightarrow> string \<Rightarrow> string \<Rightarrow> element list \<Rightarrow> dom_node \<Rightarrow> string \<Rightarrow>
   controller_info \<Rightarrow> string \<Rightarrow> error + finding list" where
  "check_target parse file_content relative_path doc controller_element controller_name info target =
     (if target \<in> set (optional_targets info) then Inr []
      else if target \<in> set (targets_with_skip info) then Inr []
      else
        let target_attr = ''data-'' @ controller_name @ ''-target'';
            on_element = attr_includes controller_element target_attr target;
            in_descendants =
              (if on_element then True
               else css_attr_contains (descendants controller_element) target_attr target \<noteq> [])
        in
          (case (if in_descendants then Inr True
                 else (case find_stimulus_targets parse (erb_ast_parser_new file_content)
                              controller_name target of
                         Inl e \<Rightarrow> Inl e
                       | Inr erb_targets \<Rightarrow> Inr (erb_targets \<noteq> []))) of
             Inl e \<Rightarrow> Inl e
           | Inr True \<Rightarrow> Inr []
           | Inr False \<Rightarrow>
               let target_exists_elsewhere =
                     list_ex (is_outside_scope controller_element)
                       (css_attr_contains (doc_nodes doc) target_attr target)
               in if target_exists_elsewhere
                  then Inr [TargetScopeError controller_name target relative_path]
                  else (case find_stimulus_targets parse (erb_ast_parser_new file_content)
                               controller_name target of
                          Inl e \<Rightarrow> Inl e
                        | Inr erb_targets \<Rightarrow>
                            Inr [TargetError controller_name target relative_path])))"

definition validate_targets ::
  "(string \<Rightarrow> ast option) \<Rightarrow> string \<Rightarrow> string \<Rightarrow> element list \<Rightarrow> dom_node \<Rightarrow> string \<Rightarrow>
   controller_info \<Rightarrow> error + finding list" where
  "validate_targets parse file_content relative_path doc controller_element controller_name info =
     each_collect
       (check_target parse file_content relative_path doc controller_element controller_name info)
       (targets info)"

section \<open>The validator: outlets\<close>




section \<open>The validator: actions\<close>

text \<open>
  \<open>String#split("\n")\<close> and \<open>String#split(/\s+/)\<close>: the pieces between the separators,
  without the empty pieces at the end.
\<close>

fun split_on :: "char \<Rightarrow> string \<Rightarrow> string list" where
  "split_on d [] = [[]]"
| "split_on d (c # cs) =
     (if c = d then [] # split_on d cs
      else (case split_on d cs of [] \<Rightarrow> [[c]] | x # xs \<Rightarrow> (c # x) # xs))"

definition drop_trailing_empty :: "string list \<Rightarrow> string list" where
  "drop_trailing_empty xs = rev (dropWhile (\<lambda>x. x = []) (rev xs))"

definition split_lines :: "string \<Rightarrow> string list" where
  "split_lines s = drop_trailing_empty (split_on newline s)"

function split_space_runs :: "string \<Rightarrow> string list" where
  "split_space_runs s =
     (let r = dropWhile (\<lambda>c. \<not> space_char c) s
      in if r = [] then [s]
         else takeWhile (\<lambda>c. \<not> space_char c) s # split_space_runs (dropWhile space_char r))"
  by pat_completeness auto
termination
proof (relation "measure length")
  fix s r :: string
  assume a: "r = dropWhile (\<lambda>c. \<not> space_char c) s" "r \<noteq> []"
  then have "space_char (hd r)"
    using hd_dropWhile by (metis (mono_tags, lifting))
  with a(2) have "dropWhile space_char r = dropWhile space_char (tl r)"
    by (cases r) auto
  moreover have "length (dropWhile space_char (tl r)) \<le> length (tl r)"
    by (rule length_dropWhile_le)
  moreover have "length r \<le> length s"
    unfolding a(1) by (rule length_dropWhile_le)
  ultimately show "(dropWhile space_char r, s) \<in> measure length"
    using a(2) by (cases r) auto
qed simp

declare split_space_runs.simps [simp del]

definition split_ws :: "string \<Rightarrow> string list" where
  "split_ws s = drop_trailing_empty (split_space_runs s)"

text \<open>\<open>Array#uniq\<close> keeps the first of equal elements.\<close>

definition uniq :: "string list \<Rightarrow> string list" where
  "uniq xs = rev (remdups (rev xs))"

text \<open>
  An action of \<open>all_actions\<close>. An action of a \<open>data-action\<close> attribute has its element and
  no source; an action of a fragment has no element, the source \<open>erb_ast\<close> and the line
  number of its fragment.
\<close>

datatype action_origin = HtmlAction dom_node | ErbAction nat

record action_info =
  ai_origin :: action_origin
  ai_action :: string
  ai_event :: "string option"
  ai_controller :: string
  ai_method :: string

definition source_of :: "action_origin \<Rightarrow> string option" where
  "source_of origin = (case origin of HtmlAction _ \<Rightarrow> None | ErbAction _ \<Rightarrow> Some ''erb_ast'')"

definition html_actions :: "element list \<Rightarrow> action_info list" where
  "html_actions doc =
     concat (map (\<lambda>action_element.
        map (\<lambda>a. \<lparr>ai_origin = HtmlAction action_element, ai_action = pa_action a,
                    ai_event = pa_event a, ai_controller = pa_controller a,
                    ai_method = pa_method a\<rparr>)
          (case attr action_element ''data-action'' of
             None \<Rightarrow> [] | Some action_value \<Rightarrow> parse_action_string action_value))
       (css_has_attr (doc_nodes doc) ''data-action''))"

definition parse_erb_actions :: "(string \<Rightarrow> ast option) \<Rightarrow> string \<Rightarrow> error + action_info list" where
  "parse_erb_actions parse file_content =
     (case find_stimulus_actions parse (erb_ast_parser_new file_content) None of
        Inl e \<Rightarrow> Inl e
      | Inr erb_actions \<Rightarrow>
          Inr (map (\<lambda>erb_action.
                 let a = am_parsed_action (r_match erb_action)
                 in \<lparr>ai_origin = ErbAction (line_number erb_action), ai_action = pa_action a,
                     ai_event = pa_event a, ai_controller = pa_controller a,
                     ai_method = pa_method a\<rparr>)
                 erb_actions))"

text \<open>
  \<open>find_scope_end\<close>. \<open>/<(\w+)(?:\s[^>]*)?(?:\s+data-controller|\s+id=)/\<close>: the leftmost
  \<open><\<close> followed by a tag name and, after a stretch without \<open>>\<close> that starts and ends
  with whitespace, by \<open>data-controller\<close> or \<open>id=\<close>; the result is the tag name.
\<close>

fun attr_follows :: "bool \<Rightarrow> string \<Rightarrow> bool" where
  "attr_follows after_space [] = False"
| "attr_follows after_space (c # cs) =
     ((after_space \<and> (prefix ''data-controller'' (c # cs) \<or> prefix ''id='' (c # cs))) \<or>
      (c \<noteq> CHR ''>'' \<and> attr_follows (space_char c) cs))"

fun opening_tag :: "string \<Rightarrow> string option" where
  "opening_tag [] = None"
| "opening_tag (c # cs) =
     (if c = CHR ''<'' \<and> takeWhile word_char cs \<noteq> [] \<and>
         (case dropWhile word_char cs of
            [] \<Rightarrow> False
          | d # r \<Rightarrow> space_char d \<and> attr_follows True r)
      then Some (takeWhile word_char cs)
      else opening_tag cs)"

text \<open>\<open>line.scan(/<tag(?:\s|>)/)\<close> and \<open>line.scan(/<\/tag>/)\<close>: the numbers of matches.\<close>

fun count_open_tags :: "string \<Rightarrow> string \<Rightarrow> nat" where
  "count_open_tags tag_name [] = 0"
| "count_open_tags tag_name (c # cs) =
     (if prefix (CHR ''<'' # tag_name) (c # cs) \<and>
         (case drop (length tag_name) cs of
            [] \<Rightarrow> False
          | d # _ \<Rightarrow> space_char d \<or> d = CHR ''>'')
      then 1 else 0) + count_open_tags tag_name cs"

fun count_close_tags :: "string \<Rightarrow> string \<Rightarrow> nat" where
  "count_close_tags tag_name [] = 0"
| "count_close_tags tag_name (c # cs) =
     (if prefix (''</'' @ tag_name @ ''>'') (c # cs) then 1 else 0)
     + count_close_tags tag_name cs"

text \<open>
  The loop over the lines from the opening tag on: the openings of a line are counted
  before its closings, and the scan returns at the closing that brings the depth to
  zero once an opening was seen.
\<close>

fun scope_scan :: "string \<Rightarrow> nat \<Rightarrow> nat \<Rightarrow> int \<Rightarrow> bool \<Rightarrow> string list \<Rightarrow> nat" where
  "scope_scan tag_name line_count i depth tag_found [] = line_count"
| "scope_scan tag_name line_count i depth tag_found (line # rest) =
     (let opened = count_open_tags tag_name line;
          closed = count_close_tags tag_name line;
          depth' = depth + int opened;
          tag_found' = (tag_found \<or> 0 < opened)
      in if tag_found' \<and> 1 \<le> depth' \<and> depth' \<le> int closed then i + 1
         else scope_scan tag_name line_count (i + 1) (depth' - int closed) tag_found' rest)"

definition find_scope_end :: "string list \<Rightarrow> nat \<Rightarrow> nat" where
  "find_scope_end lines start_index =
     (let candidates = (if start_index = 0 then [0] else [start_index - 1, start_index]);
          found = List.map_filter
                    (\<lambda>line_idx. map_option (\<lambda>tag_name. (tag_name, line_idx))
                                   (opening_tag (lines ! line_idx)))
                    candidates
      in case found of
           [] \<Rightarrow> length lines
         | (tag_name, opening_tag_line) # _ \<Rightarrow>
             scope_scan tag_name (length lines) opening_tag_line 0 False
               (drop opening_tag_line lines))"

definition declares_controller_line :: "string \<Rightarrow> string \<Rightarrow> bool" where
  "declares_controller_line line controller_name \<longleftrightarrow>
     str_include line ''data-controller='' \<and> str_include line controller_name \<and>
     (str_include line (''\"'' @ controller_name @ ''\"'') \<or>
      str_include line ([CHR 0x27] @ controller_name @ [CHR 0x27]) \<or>
      str_include line (''\"'' @ controller_name @ '' '') \<or>
      str_include line ([CHR 0x27] @ controller_name @ '' '') \<or>
      str_include line ('' '' @ controller_name @ ''\"'') \<or>
      str_include line ('' '' @ controller_name @ [CHR 0x27]) \<or>
      str_include line ('' '' @ controller_name @ '' ''))"

definition check_erb_action_scope :: "string \<Rightarrow> nat \<Rightarrow> string \<Rightarrow> bool" where
  "check_erb_action_scope controller_name action_line file_content \<longleftrightarrow>
     (let lines = split_lines file_content
      in list_ex (\<lambda>index.
           declares_controller_line (lines ! index) controller_name \<and>
           index + 1 \<le> action_line \<and> action_line \<le> find_scope_end lines index)
         [0..<length lines])"

text \<open>
  \<open>get_controllers_from_parents\<close>. \<open>partial_parent_map\<close> and the parsed parent files are
  inputs of the model. The recursion follows the parents of parents and does not end
  when a partial is among its own ancestors: \<open>fuel\<close> bounds its depth, and \<open>None\<close> is the
  call that does not return.
\<close>

definition declared_controllers :: "element list \<Rightarrow> string list" where
  "declared_controllers doc =
     concat (map (\<lambda>element. case attr element ''data-controller'' of
                               None \<Rightarrow> [] | Some v \<Rightarrow> map strip (split_ws v))
               (css_has_attr (doc_nodes doc) ''data-controller''))"

fun get_controllers_from_parents ::
  "nat \<Rightarrow> (string \<Rightarrow> string list option) \<Rightarrow> (string \<Rightarrow> element list) \<Rightarrow> string \<Rightarrow>
   string list option" where
  "get_controllers_from_parents 0 partial_parent_map read_doc partial_path = None"
| "get_controllers_from_parents (Suc fuel) partial_parent_map read_doc partial_path =
     map_option (\<lambda>css. uniq (concat css))
       (those (map (\<lambda>parent_file.
           map_option (\<lambda>inherited. declared_controllers (read_doc parent_file) @ inherited)
             (if str_include parent_file ''_''
              then get_controllers_from_parents fuel partial_parent_map read_doc parent_file
              else Some []))
         (case partial_parent_map partial_path of None \<Rightarrow> [] | Some parent_files \<Rightarrow> parent_files)))"

text \<open>
  The call \<open>contains_controller_in_ast?(ast, controller_name)\<close> in the action loop has no
  receiver. The method is a private method of \<open>ErbAstParser\<close> (the coverage statistics
  reach it with \<open>erb_parser.send\<close>); the example group does not define it, so the call
  raises \<open>NoMethodError\<close>, which the \<open>rescue\<close> around it takes like a parse failure.
\<close>

definition example_contains_controller_in_ast :: "ast \<Rightarrow> string \<Rightarrow> error + bool" where
  "example_contains_controller_in_ast tree controller_name = Inl NoMethodError"

definition controller_in_erb_blocks :: "(string \<Rightarrow> ast option) \<Rightarrow> string \<Rightarrow> string \<Rightarrow> bool" where
  "controller_in_erb_blocks parse file_content controller_name \<longleftrightarrow>
     list_ex (\<lambda>block.
        str_include (code block) ''data'' \<and> str_include (code block) ''controller'' \<and>
        (case parse (preprocess_erb_code (code block)) of
           None \<Rightarrow> False
         | Some tree \<Rightarrow>
             (case example_contains_controller_in_ast tree controller_name of
                Inl e \<Rightarrow> False
              | Inr found \<Rightarrow> found)))
       (erb_blocks (erb_ast_parser_new file_content))"

definition controller_exists_in_file ::
  "(string \<Rightarrow> ast option) \<Rightarrow> string \<Rightarrow> element list \<Rightarrow> string \<Rightarrow> bool" where
  "controller_exists_in_file parse file_content doc controller_name \<longleftrightarrow>
     (if list_ex (\<lambda>element. case attr element ''data-controller'' of
                               None \<Rightarrow> False | Some v \<Rightarrow> controller_name \<in> set (split_ws v))
           (css_has_attr (doc_nodes doc) ''data-controller'')
      then True
      else controller_in_erb_blocks parse file_content controller_name)"

text \<open>The controller scope of an action before the parent templates are asked.\<close>

definition local_controller_scope :: "action_info \<Rightarrow> string \<Rightarrow> bool" where
  "local_controller_scope action_info file_content \<longleftrightarrow>
     (case ai_origin action_info of
        ErbAction line \<Rightarrow> check_erb_action_scope (ai_controller action_info) line file_content
      | HtmlAction action_element \<Rightarrow>
          if attr_includes action_element ''data-controller'' (ai_controller action_info) then True
          else list_ex (\<lambda>ancestor.
                  case map_of (attrs (snd ancestor)) ''data-controller'' of
                    None \<Rightarrow> False
                  | Some v \<Rightarrow> str_include v (ai_controller action_info))
                 (node_ancestors action_element))"

definition controller_scope ::
  "nat \<Rightarrow> (string \<Rightarrow> string list option) \<Rightarrow> (string \<Rightarrow> element list) \<Rightarrow> string \<Rightarrow> string \<Rightarrow>
   action_info \<Rightarrow> bool option" where
  "controller_scope fuel partial_parent_map read_doc file_content relative_path action_info =
     (if \<not> local_controller_scope action_info file_content \<and> str_include relative_path ''_''
      then map_option (\<lambda>parent_controllers. ai_controller action_info \<in> set parent_controllers)
             (get_controllers_from_parents fuel partial_parent_map read_doc relative_path)
      else Some (local_controller_scope action_info file_content))"

text \<open>The body of \<open>all_actions.each\<close> for one action.\<close>

definition check_action ::
  "nat \<Rightarrow> (string \<Rightarrow> ast option) \<Rightarrow> (string \<Rightarrow> string list option) \<Rightarrow> (string \<Rightarrow> element list) \<Rightarrow>
   (string \<Rightarrow> controller_info option) \<Rightarrow> string \<Rightarrow> string \<Rightarrow> element list \<Rightarrow> action_info \<Rightarrow>
   finding list option" where
  "check_action fuel parse partial_parent_map read_doc controller_data file_content relative_path
     doc action_info =
     (case controller_scope fuel partial_parent_map read_doc file_content relative_path
             action_info of
        None \<Rightarrow> None
      | Some in_scope \<Rightarrow>
          Some
            (if \<not> in_scope then
               [ScopeError (ai_action action_info) (ai_controller action_info) relative_path
                  (str_include relative_path ''_'')
                  (case partial_parent_map relative_path of None \<Rightarrow> [] | Some ps \<Rightarrow> ps)
                  (source_of (ai_origin action_info))
                  (if controller_exists_in_file parse file_content doc (ai_controller action_info)
                   then ''out_of_scope'' else ''missing_controller'')]
             else
               (case controller_data (ai_controller action_info) of
                  None \<Rightarrow> []
                | Some info \<Rightarrow>
                    if ai_method action_info \<notin> set (methods info)
                    then [ActionError (ai_action action_info) (ai_controller action_info)
                            (ai_method action_info) relative_path (methods info)
                            (source_of (ai_origin action_info))]
                    else [])))"

text \<open>
  The action part of the validation of one view: the actions of the markup, then the
  actions of the fragments, each checked in turn. \<open>Inl\<close> is an exception out of
  \<open>parse_erb_actions\<close>, \<open>None\<close> a parent lookup that does not return.
\<close>

definition validate_actions ::
  "nat \<Rightarrow> (string \<Rightarrow> ast option) \<Rightarrow> (string \<Rightarrow> string list option) \<Rightarrow> (string \<Rightarrow> element list) \<Rightarrow>
   (string \<Rightarrow> controller_info option) \<Rightarrow> string \<Rightarrow> string \<Rightarrow> element list \<Rightarrow>
   (error + finding list) option" where
  "validate_actions fuel parse partial_parent_map read_doc controller_data file_content
     relative_path doc =
     (case parse_erb_actions parse file_content of
        Inl e \<Rightarrow> Some (Inl e)
      | Inr erb_actions \<Rightarrow>
          map_option (\<lambda>fss. Inr (concat fss))
            (those (map (check_action fuel parse partial_parent_map read_doc controller_data
                           file_content relative_path doc)
                      (html_actions doc @ erb_actions))))"

section \<open>The validator: ActionCable broadcasts\<close>

definition is_actioncable_broadcast :: "ast \<Rightarrow> bool" where
  "is_actioncable_broadcast node \<longleftrightarrow>
     has_type node ''send'' \<and> child node 1 = SymVal ''broadcast'' \<and>
     (let receiver = child node 0 in
      receiver \<noteq> NilVal \<and> has_type receiver ''send'' \<and> child receiver 1 = SymVal ''server'' \<and>
      (let receiver_receiver = child receiver 0 in
       receiver_receiver \<noteq> NilVal \<and> has_type receiver_receiver ''const'' \<and>
       child receiver_receiver 1 = SymVal ''ActionCable''))"

text \<open>
  The first part of an interpolated string that is a \<open>str\<close> node with a non-empty
  string: the static prefix when the string starts with text.
\<close>

fun first_static_part :: "ast list \<Rightarrow> string option" where
  "first_static_part [] = None"
| "first_static_part (part # parts) =
     (case (if has_type part ''str'' then child part 0 else NilVal) of
        StrVal s \<Rightarrow> if s \<noteq> [] then Some s else first_static_part parts
      | _ \<Rightarrow> first_static_part parts)"

definition extract_string_from_node :: "ast \<Rightarrow> string option" where
  "extract_string_from_node node =
     (if has_type node ''str'' then (case child node 0 of StrVal s \<Rightarrow> Some s | _ \<Rightarrow> None)
      else if has_type node ''dstr'' then first_static_part (children node)
      else None)"

definition extract_broadcast_stream_name :: "ast \<Rightarrow> (string \<Rightarrow> string option) \<Rightarrow> string option" where
  "extract_broadcast_stream_name broadcast_node local_vars =
     (let first_arg = child broadcast_node 2 in
      if has_type first_arg ''str'' then (case child first_arg 0 of StrVal s \<Rightarrow> Some s | _ \<Rightarrow> None)
      else if has_type first_arg ''dstr'' then first_static_part (children first_arg)
      else if has_type first_arg ''lvar'' then
        (case child first_arg 0 of SymVal var_name \<Rightarrow> local_vars var_name | _ \<Rightarrow> None)
      else None)"

definition type_of_pair :: "ast \<Rightarrow> string option" where
  "type_of_pair pair =
     (if has_type pair ''pair'' \<and>
         ((has_type (child pair 0) ''sym'' \<and> child (child pair 0) 0 = SymVal ''type'') \<or>
          (has_type (child pair 0) ''str'' \<and> child (child pair 0) 0 = StrVal ''type'')) \<and>
         has_type (child pair 1) ''str''
      then (case child (child pair 1) 0 of StrVal s \<Rightarrow> Some s | _ \<Rightarrow> None)
      else None)"

definition extract_broadcast_type_from_node :: "ast \<Rightarrow> string option" where
  "extract_broadcast_type_from_node broadcast_node =
     (case List.map_filter type_of_pair
             (concat (map (\<lambda>arg. if has_type arg ''hash'' then children arg else [])
                        (drop 2 (children broadcast_node)))) of
        [] \<Rightarrow> None
      | t # _ \<Rightarrow> Some t)"

record broadcast =
  b_type :: "string option"
  b_stream_name :: "string option"
  b_line :: nat

text \<open>
  \<open>find_actioncable_broadcasts_in_ast\<close>. The hash \<open>local_vars\<close> is one object for the
  whole walk: it is passed on and returned. \<open>node.loc.line\<close> is the parameter \<open>line_of\<close>.
\<close>

definition broadcast_entry :: "(ast \<Rightarrow> nat) \<Rightarrow> ast \<Rightarrow> (string \<Rightarrow> string option) \<Rightarrow> broadcast" where
  "broadcast_entry line_of node local_vars =
     \<lparr>b_type = extract_broadcast_type_from_node node,
      b_stream_name = extract_broadcast_stream_name node local_vars,
      b_line = line_of node\<rparr>"

definition track_assignment :: "ast \<Rightarrow> (string \<Rightarrow> string option) \<Rightarrow> (string \<Rightarrow> string option)" where
  "track_assignment node local_vars =
     (if has_type node ''lvasgn'' then
        (case (child node 0, extract_string_from_node (child node 1)) of
           (SymVal var_name, Some extracted) \<Rightarrow> local_vars(var_name \<mapsto> extracted)
         | _ \<Rightarrow> local_vars)
      else local_vars)"

fun find_actioncable_broadcasts_in_ast ::
  "(ast \<Rightarrow> nat) \<Rightarrow> ast \<Rightarrow> (string \<Rightarrow> string option) \<Rightarrow> broadcast list \<times> (string \<Rightarrow> string option)"
  and find_broadcasts_in_children ::
  "(ast \<Rightarrow> nat) \<Rightarrow> ast list \<Rightarrow> (string \<Rightarrow> string option) \<Rightarrow>
   broadcast list \<times> (string \<Rightarrow> string option)" where
  "find_actioncable_broadcasts_in_ast line_of (Node t cs) local_vars =
     (let vars = track_assignment (Node t cs) local_vars;
          own = (if is_actioncable_broadcast (Node t cs)
                 then [broadcast_entry line_of (Node t cs) vars] else []);
          below = find_broadcasts_in_children line_of cs vars
      in (own @ fst below, snd below))"
| "find_actioncable_broadcasts_in_ast line_of (StrVal v) local_vars = ([], local_vars)"
| "find_actioncable_broadcasts_in_ast line_of (SymVal v) local_vars = ([], local_vars)"
| "find_actioncable_broadcasts_in_ast line_of (IntVal i) local_vars = ([], local_vars)"
| "find_actioncable_broadcasts_in_ast line_of NilVal local_vars = ([], local_vars)"
| "find_broadcasts_in_children line_of [] local_vars = ([], local_vars)"
| "find_broadcasts_in_children line_of (c # cs) local_vars =
     (let first = find_actioncable_broadcasts_in_ast line_of c local_vars;
          rest = find_broadcasts_in_children line_of cs (snd first)
      in (fst first @ fst rest, snd rest))"

text \<open>
  \<open>stream_name.sub(/_\d+$/, '').chomp('_')\<close>: the first underscore followed by digits up
  to the end of a line goes with its digits; then one underscore at the end goes.
\<close>

fun sub_underscore_digits :: "string \<Rightarrow> string" where
  "sub_underscore_digits [] = []"
| "sub_underscore_digits (c # cs) =
     (if c = CHR ''_'' \<and> takeWhile digit_char cs \<noteq> [] \<and> at_line_end (dropWhile digit_char cs)
      then dropWhile digit_char cs
      else c # sub_underscore_digits cs)"

definition chomp :: "char \<Rightarrow> string \<Rightarrow> string" where
  "chomp c s = (if s \<noteq> [] \<and> last s = c then butlast s else s)"

definition infer_channel_name_from_stream :: "string \<Rightarrow> string" where
  "infer_channel_name_from_stream stream_name = chomp (CHR ''_'') (sub_underscore_digits stream_name)"

text \<open>\<open>type_string.split(/[-_]/).map(&:capitalize).join('')\<close>.\<close>

fun split_where :: "(char \<Rightarrow> bool) \<Rightarrow> string \<Rightarrow> string list" where
  "split_where sep [] = [[]]"
| "split_where sep (c # cs) =
     (if sep c then [] # split_where sep cs
      else (case split_where sep cs of [] \<Rightarrow> [[c]] | x # xs \<Rightarrow> (c # x) # xs))"

definition capitalize :: "string \<Rightarrow> string" where
  "capitalize s = (case s of [] \<Rightarrow> [] | c # cs \<Rightarrow> upcase_char c # map downcase_char cs)"

definition capitalize_type :: "string \<Rightarrow> string" where
  "capitalize_type type_string =
     concat (map capitalize
               (drop_trailing_empty
                  (split_where (\<lambda>c. c = CHR ''-'' \<or> c = CHR ''_'') type_string)))"

record broadcast_error =
  be_source_file :: string
  be_line :: nat
  be_stream_name :: string
  be_channel_name :: string
  be_type :: "string option"
  be_expected_method :: "string option"
  be_frontend_file :: string
  be_error_type :: string

text \<open>
  The body of \<open>broadcasts.each\<close> for one broadcast. \<open>File.exist?\<close> is the parameter
  \<open>file_exists\<close>, on paths below the Rails root; \<open>methods_of\<close> is
  \<open>controller_data[name]&.fetch(:methods, []) || []\<close>.
\<close>

definition methods_of :: "(string \<Rightarrow> controller_info option) \<Rightarrow> string \<Rightarrow> string list" where
  "methods_of controller_data controller_name =
     (case controller_data controller_name of None \<Rightarrow> [] | Some info \<Rightarrow> methods info)"

definition check_broadcast ::
  "(string \<Rightarrow> bool) \<Rightarrow> (string \<Rightarrow> controller_info option) \<Rightarrow> string \<Rightarrow> broadcast \<Rightarrow>
   broadcast_error list" where
  "check_broadcast file_exists controller_data relative_path b =
     (case b_stream_name b of
        None \<Rightarrow> []
      | Some stream_name \<Rightarrow>
          let channel_name = infer_channel_name_from_stream stream_name;
              controller_name = tr_char (CHR ''_'') (CHR ''-'') channel_name;
              frontend_file = ''app/javascript/controllers/'' @ channel_name @ ''_controller.ts''
          in
            if \<not> file_exists frontend_file then
              [\<lparr>be_source_file = relative_path, be_line = b_line b, be_stream_name = stream_name,
                be_channel_name = channel_name, be_type = b_type b,
                be_expected_method = map_option (\<lambda>t. ''handle'' @ capitalize_type t) (b_type b),
                be_frontend_file = frontend_file, be_error_type = ''missing_frontend_file''\<rparr>]
            else
              (case b_type b of
                 None \<Rightarrow>
                   [\<lparr>be_source_file = relative_path, be_line = b_line b,
                     be_stream_name = stream_name, be_channel_name = channel_name,
                     be_type = None, be_expected_method = None,
                     be_frontend_file = frontend_file, be_error_type = ''missing_type''\<rparr>]
               | Some type_value \<Rightarrow>
                   let method_name = ''handle'' @ capitalize_type type_value in
                   if method_name \<notin> set (methods_of controller_data controller_name) then
                     [\<lparr>be_source_file = relative_path, be_line = b_line b,
                       be_stream_name = stream_name, be_channel_name = channel_name,
                       be_type = Some type_value, be_expected_method = Some method_name,
                       be_frontend_file = frontend_file, be_error_type = ''missing_handler''\<rparr>]
                   else []))"

text \<open>
  The body of \<open>source_files.each\<close> for one channel or job file; the whole-file parse is
  rescued and the file skipped.
\<close>

definition validate_broadcast_source ::
  "(string \<Rightarrow> ast option) \<Rightarrow> (ast \<Rightarrow> nat) \<Rightarrow> (string \<Rightarrow> bool) \<Rightarrow>
   (string \<Rightarrow> controller_info option) \<Rightarrow> string \<Rightarrow> string \<Rightarrow> broadcast_error list" where
  "validate_broadcast_source parse line_of file_exists controller_data relative_path source =
     (if str_include relative_path ''application_cable/channel.rb'' then []
      else
        (case parse source of
           None \<Rightarrow> []
         | Some tree \<Rightarrow>
             concat (map (check_broadcast file_exists controller_data relative_path)
                       (fst (find_actioncable_broadcasts_in_ast line_of tree Map.empty)))))"

text \<open>
  A node occurs in a tree when it is the tree or occurs in one of its children: a call
  in the body of a method of a class occurs in the tree of the file.
\<close>

inductive occurs_in :: "ast \<Rightarrow> ast \<Rightarrow> bool" where
  here: "occurs_in node node"
| below: "c \<in> set cs \<Longrightarrow> occurs_in node c \<Longrightarrow> occurs_in node (Node t cs)"

text \<open>
  The tree of \<open>ActionCable.server.broadcast("chat_#{...}", { type: 'new-message', ... })\<close>:
  \<open>interpolated\<close> are the parts of the stream name after its static prefix, \<open>more_pairs\<close>
  the pairs of the payload after the type.
\<close>

definition chat_broadcast :: "ast list \<Rightarrow> ast list \<Rightarrow> ast" where
  "chat_broadcast interpolated more_pairs =
     Node ''send''
       [Node ''send'' [Node ''const'' [NilVal, SymVal ''ActionCable''], SymVal ''server''],
        SymVal ''broadcast'',
        Node ''dstr'' (Node ''str'' [StrVal ''chat_''] # interpolated),
        Node ''hash'' (Node ''pair'' [Node ''sym'' [SymVal ''type''],
                                      Node ''str'' [StrVal ''new-message'']] # more_pairs)]"

section \<open>The action pattern, as the specification words it\<close>

text \<open>
  \<open>[event->]controller#method[@option]\<close>: a word is a non-empty run of word characters;
  the event is words joined by dots, the controller words joined by hyphens, the method
  and the option are words. \<open>stops\<close> says that a rest does not continue words joined by
  the separator; \<open>cm_pattern\<close> is the pattern without the event.
\<close>

definition word :: "string \<Rightarrow> bool" where
  "word w \<longleftrightarrow> w \<noteq> [] \<and> list_all word_char w"

inductive joined_words :: "char \<Rightarrow> string \<Rightarrow> bool" for sep :: char where
  single: "word w \<Longrightarrow> joined_words sep w"
| more: "word w \<Longrightarrow> joined_words sep x \<Longrightarrow> joined_words sep (w @ sep # x)"

definition stops :: "char \<Rightarrow> string \<Rightarrow> bool" where
  "stops sep r \<longleftrightarrow> (case r of [] \<Rightarrow> True | d # r' \<Rightarrow> \<not> word_char d \<and> \<not> (d = sep \<and> starts_with_word r'))"

definition action_pattern :: "string \<Rightarrow> string option \<Rightarrow> string \<Rightarrow> string \<Rightarrow> bool" where
  "action_pattern tok ev ctrl m \<longleftrightarrow>
     (\<exists>opt. tok = (case ev of None \<Rightarrow> [] | Some e \<Rightarrow> e @ ''->'') @ ctrl @ ''#'' @ m @
                   (case opt of None \<Rightarrow> [] | Some ow \<Rightarrow> CHR ''@'' # ow) \<and>
            (case ev of None \<Rightarrow> True | Some e \<Rightarrow> joined_words (CHR ''.'') e) \<and>
            joined_words (CHR ''-'') ctrl \<and> word m \<and>
            (case opt of None \<Rightarrow> True | Some ow \<Rightarrow> word ow))"

definition option_text :: "string option \<Rightarrow> string" where
  "option_text opt = (case opt of None \<Rightarrow> [] | Some ow \<Rightarrow> CHR ''@'' # ow)"

definition cm_pattern :: "string \<Rightarrow> string \<Rightarrow> string \<Rightarrow> bool" where
  "cm_pattern s ctrl m \<longleftrightarrow>
     (\<exists>opt. s = ctrl @ ''#'' @ m @ option_text opt \<and> joined_words (CHR ''-'') ctrl \<and> word m \<and>
            (case opt of None \<Rightarrow> True | Some ow \<Rightarrow> word ow))"

section \<open>The hash nodes that the action query reaches\<close>

text \<open>
  The hash nodes of a tree, and the hash nodes that are direct arguments of a call (the
  children of a \<open>send\<close> node from the third on), each list in the order of the tree.
  They are defined on the tree alone, without the walk of the query.
\<close>

fun hash_nodes :: "ast \<Rightarrow> ast list" where
  "hash_nodes (Node t cs) =
     (if t = ''hash'' then [Node t cs] else []) @ concat (map hash_nodes cs)"
| "hash_nodes _ = []"

fun call_argument_hashes :: "ast \<Rightarrow> ast list" where
  "call_argument_hashes (Node t cs) =
     (if t = ''send'' then filter (\<lambda>arg. has_type arg ''hash'') (drop 2 cs) else [])
     @ concat (map call_argument_hashes cs)"
| "call_argument_hashes _ = []"

section \<open>Sample inputs\<close>

text \<open>
  A controller element \<open><div data-controller="menu">\<close> with the given children, as the
  first element of its document, and controller metadata for \<open>menu\<close>.
\<close>

definition menu_div :: "element list \<Rightarrow> element" where
  "menu_div ks = Element ''div'' [(''data-controller'', ''menu'')] ks"

definition menu_node :: "element list \<Rightarrow> dom_node" where
  "menu_node ks = DomNode [0] (menu_div ks) []"

definition menu_info :: controller_info where
  "menu_info = \<lparr>targets = [''item'', ''panel''], optional_targets = [''panel''],
     outlets = [''side_panel''], methods = [''open''], targets_with_skip = []\<rparr>"

definition menu_info_skip :: controller_info where
  "menu_info_skip = \<lparr>targets = [''item'', ''panel''], optional_targets = [''panel''],
     outlets = [], methods = [''open''], targets_with_skip = [''item'']\<rparr>"

text \<open>A view whose fragment declares the target behind the controller element.\<close>

definition target_view :: string where
  "target_view =
     ''<div data-controller=\"menu\"></div><%= tag.div data: { \"menu-target\" => \"item\" } %>''"


text \<open>
  A view that declares the controller \<open>menu\<close> in a fragment only and has an action of
  \<open>menu\<close> on a button beside it; the document that Nokogiri builds has the button as its
  only element. The view is no partial and has no parents.
\<close>

definition no_partial_parents :: "string \<Rightarrow> string list option" where
  "no_partial_parents partial_path = None"

definition no_parent_docs :: "string \<Rightarrow> element list" where
  "no_parent_docs parent_file = []"

definition menu_controller_data :: "string \<Rightarrow> controller_info option" where
  "menu_controller_data name = (if name = ''menu'' then Some menu_info else None)"

definition erb_controller_view :: string where
  "erb_controller_view =
     ''<%= tag.div data: { controller: \"menu\" } %>'' @ [newline] @
     ''<button data-action=\"click->menu#open\">Open</button>''"

definition erb_controller_doc :: "element list" where
  "erb_controller_doc = [Element ''button'' [(''data-action'', ''click->menu#open'')] []]"

text \<open>
  The channel file \<open>app/channels/chat_channel.rb\<close> with the chat broadcast in a method of
  its class, the tree that the parser gives for it and the lines on which its nodes
  start, and a Rails root where the chat controller file exists, with the given methods
  in its metadata.
\<close>

definition chat_controller_data :: "string list \<Rightarrow> string \<Rightarrow> controller_info option" where
  "chat_controller_data ms name =
     (if name = ''chat'' then
        Some \<lparr>targets = [], optional_targets = [], outlets = [], methods = ms,
              targets_with_skip = []\<rparr>
      else None)"

definition chat_file_exists :: "string \<Rightarrow> bool" where
  "chat_file_exists file \<longleftrightarrow> file = ''app/javascript/controllers/chat_controller.ts''"

definition chat_channel_source :: string where
  "chat_channel_source =
     ''class ChatChannel < ApplicationCable::Channel'' @ [newline] @
     ''  def speak(data)'' @ [newline] @
     ''    ActionCable.server.broadcast(\"chat_#{id}\", { type: 'new-message', body: data })'' @ [newline] @
     ''  end'' @ [newline] @
     ''end'' @ [newline]"

definition chat_channel_tree :: ast where
  "chat_channel_tree =
     Node ''class''
       [Node ''const'' [NilVal, SymVal ''ChatChannel''],
        Node ''const'' [Node ''const'' [NilVal, SymVal ''ApplicationCable''], SymVal ''Channel''],
        Node ''def''
          [SymVal ''speak'', Node ''args'' [Node ''arg'' [SymVal ''data'']],
           chat_broadcast [Node ''begin'' [Node ''send'' [NilVal, SymVal ''id'']]]
             [Node ''pair'' [Node ''sym'' [SymVal ''body''], Node ''lvar'' [SymVal ''data'']]]]]"

definition chat_channel_parse :: "string \<Rightarrow> ast option" where
  "chat_channel_parse src = (if src = chat_channel_source then Some chat_channel_tree else None)"

definition chat_line :: "ast \<Rightarrow> nat" where
  "chat_line node =
     (if has_type node ''class'' \<or> node \<in> set (take 2 (children chat_channel_tree)) \<or>
         node = Node ''const'' [NilVal, SymVal ''ApplicationCable'']
      then 1
      else if has_type node ''def'' \<or> has_type node ''args'' \<or> has_type node ''arg'' then 2
      else 3)"

text \<open>
  A view with a fragment that declares the target \<open>item\<close> at its end; before it, a
  \<open>tag.span\<close> fragment with a hash literal stands between \<open>if\<close> and \<open>end\<close>.
\<close>

definition unclosed_span_view :: string where
  "unclosed_span_view =
     ''<div data-controller=\"menu\"></div><% if x %><%= tag.span data: { \"menu-target\" => \"other\" } %><% end %><%= tag.div data: { \"menu-target\" => \"item\" } %>''"




text \<open>
  A view whose only fragment declares an action in a hash literal, and one whose only
  fragment declares it in the hash given to \<open>merge\<close>.
\<close>

definition action_view :: string where
  "action_view = ''<p><%= tag.div data: { action: \"click->menu#open\" } %></p>''"

definition merged_action_view :: string where
  "merged_action_view = ''<p><%= tag.div data: base.merge(action: \"click->menu#open\") %></p>''"

text \<open>
  The trees of \<open>base.merge(action: "...")\<close>, where the hash with the action pair is an
  argument of the call, and of \<open>tag.div data: { action: "..." }\<close>, where it is the value
  of the pair \<open>data\<close>.
\<close>

definition action_call :: "string \<Rightarrow> ast" where
  "action_call s =
     Node ''send'' [Node ''send'' [NilVal, SymVal ''base''], SymVal ''merge'',
       Node ''hash'' [Node ''pair'' [Node ''sym'' [SymVal ''action''], Node ''str'' [StrVal s]]]]"

definition action_tag :: "string \<Rightarrow> ast" where
  "action_tag s =
     Node ''send'' [Node ''send'' [NilVal, SymVal ''tag''], SymVal ''div'',
       Node ''hash'' [Node ''pair'' [Node ''sym'' [SymVal ''data''],
         Node ''hash'' [Node ''pair'' [Node ''sym'' [SymVal ''action''],
           Node ''str'' [StrVal s]]]]]]"

section \<open>Fragment merging: the scan and what it emits\<close>

lemma nesting_from_same: "nesting_from blocks n j j = n"
  by (simp add: nesting_from_def)

lemma nesting_from_step:
  "j < k \<Longrightarrow>
   nesting_from blocks n j k =
   nesting_from blocks (n + nesting_delta (code (blocks ! j))) (Suc j) k"
  by (simp add: nesting_from_def upt_conv_Cons)

lemma joined_code_step:
  "j < k \<Longrightarrow>
   joined_code blocks c j k = joined_code blocks (c @ [newline] @ code (blocks ! j)) (Suc j) k"
  by (simp add: joined_code_def upt_conv_Cons)

lemma merge_scan_result:
  "j \<le> length blocks \<Longrightarrow> merge_scan blocks j n c skip = (j', n', c', skip') \<Longrightarrow>
     j \<le> j' \<and> j' \<le> length blocks \<and> n' = nesting_from blocks n j j' \<and>
     c' = joined_code blocks c j j' \<and> skip' = skip \<union> {j..<j'} \<and>
     (j' = length blocks \<or> n' \<le> 0) \<and>
     (\<forall>k. j \<le> k \<and> k < j' \<longrightarrow> 0 < nesting_from blocks n j k)"
proof (induction blocks j n c skip rule: merge_scan.induct)
  case (1 blocks j n c skip)
  show ?case
  proof (cases "j < length blocks \<and> 0 < n")
    case True
    let ?n = "n + nesting_delta (code (blocks ! j))"
    let ?c = "c @ [newline] @ code (blocks ! j)"
    from True "1.prems"(2)
    have scan: "merge_scan blocks (j + 1) ?n ?c (insert j skip) = (j', n', c', skip')"
      by (simp add: merge_scan.simps [of blocks j] Let_def)
    from True have le: "j + 1 \<le> length blocks" by simp
    from "1.IH" [OF True refl le scan]
    have ih: "j + 1 \<le> j'" "j' \<le> length blocks" "n' = nesting_from blocks ?n (j + 1) j'"
      "c' = joined_code blocks ?c (j + 1) j'" "skip' = insert j skip \<union> {j + 1..<j'}"
      "j' = length blocks \<or> n' \<le> 0"
      "\<forall>k. j + 1 \<le> k \<and> k < j' \<longrightarrow> 0 < nesting_from blocks ?n (j + 1) k"
      by blast+
    from ih(1) have lt: "j < j'" by simp
    have "\<forall>k. j \<le> k \<and> k < j' \<longrightarrow> 0 < nesting_from blocks n j k"
    proof (intro allI impI)
      fix k assume k: "j \<le> k \<and> k < j'"
      show "0 < nesting_from blocks n j k"
      proof (cases "k = j")
        case True
        with \<open>j < length blocks \<and> 0 < n\<close> show ?thesis by (simp add: nesting_from_same)
      next
        case False
        with k have "j < k" "j + 1 \<le> k \<and> k < j'" by simp_all
        with ih(7) show ?thesis by (simp add: nesting_from_step)
      qed
    qed
    moreover have "skip' = skip \<union> {j..<j'}"
      using ih(5) lt by auto
    ultimately show ?thesis
      using ih lt by (simp add: nesting_from_step joined_code_step)
  next
    case False
    with "1.prems" show ?thesis
      by (auto simp: merge_scan.simps [of blocks j] nesting_from_same joined_code_def)
  qed
qed

lemma merge_step_scan:
  assumes "i < length blocks" and "i \<notin> skip" and "has_unmatched_do (code (blocks ! i))"
  shows "\<exists>j. i < j \<and> j \<le> length blocks \<and>
           merge_step blocks i (acc, skip) =
             (acc @ [(blocks ! i)\<lparr>code := joined_code blocks (code (blocks ! i)) (i + 1) j,
                                  merged := True\<rparr>],
              skip \<union> {i + 1..<j}) \<and>
           (j = length blocks \<or> nesting_from blocks 1 (i + 1) j \<le> 0) \<and>
           (\<forall>k. i + 1 \<le> k \<and> k < j \<longrightarrow> 0 < nesting_from blocks 1 (i + 1) k)"
proof -
  obtain j n c skip' where
    scan: "merge_scan blocks (i + 1) 1 (code (blocks ! i)) skip = (j, n, c, skip')"
    using prod_cases4 by blast
  from assms(1) have "i + 1 \<le> length blocks" by simp
  from merge_scan_result [OF this scan]
  have r: "i + 1 \<le> j" "j \<le> length blocks" "n = nesting_from blocks 1 (i + 1) j"
    "c = joined_code blocks (code (blocks ! i)) (i + 1) j" "skip' = skip \<union> {i + 1..<j}"
    "j = length blocks \<or> n \<le> 0"
    "\<forall>k. i + 1 \<le> k \<and> k < j \<longrightarrow> 0 < nesting_from blocks 1 (i + 1) k"
    by blast+
  have "merge_step blocks i (acc, skip) =
          (acc @ [(blocks ! i)\<lparr>code := c, merged := True\<rparr>], skip')"
    using assms(2,3) scan by (simp add: merge_step_def)
  with r show ?thesis
    by (intro exI [of _ j]) simp
qed

lemma merge_step_prefix: "prefix (fst st) (fst (merge_step blocks i st))"
  by (cases st) (auto simp: merge_step_def Let_def split: prod.splits)

lemma merge_fold_prefix: "prefix (fst st) (fst (fold (merge_step blocks) is st))"
proof (induction "is" arbitrary: st)
  case Nil
  then show ?case by simp
next
  case (Cons i "is")
  have "prefix (fst st) (fst (merge_step blocks i st))" by (rule merge_step_prefix)
  also have "prefix \<dots> (fst (fold (merge_step blocks) is (merge_step blocks i st)))"
    by (rule Cons.IH)
  finally show ?case by simp
qed

lemma merge_block_pairs_from:
  assumes "i < length blocks"
  shows "merge_block_pairs blocks =
         fst (fold (merge_step blocks) [Suc i..<length blocks]
                (merge_step blocks i (fold (merge_step blocks) [0..<i] ([], {}))))"
proof -
  from assms have "[0..<length blocks] = [0..<i] @ i # [Suc i..<length blocks]"
    by (metis le_add1 less_imp_add_positive upt_add_eq_append upt_conv_Cons plus_nat.add_0 less_or_eq_imp_le)
  then show ?thesis by (simp add: merge_block_pairs_def)
qed

text \<open>
  C2, as the code has it. When the loop comes to a fragment at index \<open>i\<close> that opens a
  block and was not consumed by an earlier merge, the scan runs over the following
  fragments while the counter, seeded at 1, is positive. It stops at the first index
  \<open>j\<close> where the counter is zero or below, or at the end of the list, whichever comes
  first. In both cases one merged fragment is appended to the output and stays in the
  result of \<open>merge_block_pairs\<close>: the opener with the codes of the fragments
  \<open>i + 1, ..., j - 1\<close> joined to its own by newlines and \<open>merged\<close> set; those fragments are
  marked as consumed and the loop passes over them. No merge is abandoned.
\<close>

theorem merge_emits_merged:
  assumes "i < length blocks"
    and "fold (merge_step blocks) [0..<i] ([], {}) = (acc, skip)"
    and "i \<notin> skip" and "has_unmatched_do (code (blocks ! i))"
  shows "\<exists>j. i < j \<and> j \<le> length blocks \<and>
           merge_step blocks i (acc, skip) =
             (acc @ [(blocks ! i)\<lparr>code := joined_code blocks (code (blocks ! i)) (i + 1) j,
                                  merged := True\<rparr>],
              skip \<union> {i + 1..<j}) \<and>
           (j = length blocks \<or> nesting_from blocks 1 (i + 1) j \<le> 0) \<and>
           (\<forall>k. i + 1 \<le> k \<and> k < j \<longrightarrow> 0 < nesting_from blocks 1 (i + 1) k) \<and>
           (\<forall>k\<in>skip \<union> {i + 1..<j}. \<forall>out.
              merge_step blocks k (out, skip \<union> {i + 1..<j}) = (out, skip \<union> {i + 1..<j})) \<and>
           prefix (acc @ [(blocks ! i)\<lparr>code := joined_code blocks (code (blocks ! i)) (i + 1) j,
                                       merged := True\<rparr>])
             (merge_block_pairs blocks)"
proof -
  from merge_step_scan [OF assms(1,3,4), of acc] obtain j where
    j: "i < j" "j \<le> length blocks"
    "merge_step blocks i (acc, skip) =
             (acc @ [(blocks ! i)\<lparr>code := joined_code blocks (code (blocks ! i)) (i + 1) j,
                                  merged := True\<rparr>],
              skip \<union> {i + 1..<j})"
    "j = length blocks \<or> nesting_from blocks 1 (i + 1) j \<le> 0"
    "\<forall>k. i + 1 \<le> k \<and> k < j \<longrightarrow> 0 < nesting_from blocks 1 (i + 1) k"
    by blast
  have "prefix (fst (merge_step blocks i (acc, skip))) (merge_block_pairs blocks)"
    unfolding merge_block_pairs_from [OF assms(1)] assms(2) by (rule merge_fold_prefix)
  with j(3) have
    "prefix (acc @ [(blocks ! i)\<lparr>code := joined_code blocks (code (blocks ! i)) (i + 1) j,
                                   merged := True\<rparr>]) (merge_block_pairs blocks)"
    by simp
  moreover have "\<forall>k\<in>skip \<union> {i + 1..<j}. \<forall>out.
      merge_step blocks k (out, skip \<union> {i + 1..<j}) = (out, skip \<union> {i + 1..<j})"
    by (simp add: merge_step_def)
  ultimately show ?thesis using j by blast
qed

theorem merge_emits_merged_witness:
  "(0::nat) < length [fragment ''form_with do |f|'' 0, fragment ''f.text_field :x'' 30,
                      fragment ''end'' 60, fragment ''x'' 70] \<and>
   fold (merge_step [fragment ''form_with do |f|'' 0, fragment ''f.text_field :x'' 30,
                     fragment ''end'' 60, fragment ''x'' 70]) [0..<0] ([], {}) = ([], {}) \<and>
   (0::nat) \<notin> {} \<and>
   has_unmatched_do (code ([fragment ''form_with do |f|'' 0, fragment ''f.text_field :x'' 30,
                            fragment ''end'' 60, fragment ''x'' 70] ! 0)) \<and>
   (\<exists>j. 0 < j \<and> j \<le> 4 \<and>
      prefix
        [(fragment ''form_with do |f|'' 0)
            \<lparr>code := joined_code [fragment ''form_with do |f|'' 0,
                                   fragment ''f.text_field :x'' 30, fragment ''end'' 60,
                                   fragment ''x'' 70] ''form_with do |f|'' 1 j,
             merged := True\<rparr>]
        (merge_block_pairs [fragment ''form_with do |f|'' 0, fragment ''f.text_field :x'' 30,
                            fragment ''end'' 60, fragment ''x'' 70]))"
proof -
  let ?bs = "[fragment ''form_with do |f|'' 0, fragment ''f.text_field :x'' 30,
              fragment ''end'' 60, fragment ''x'' 70]"
  have h1: "(0::nat) < length ?bs" by simp
  have h2: "fold (merge_step ?bs) [0..<0] ([], {}) = ([], {})" by simp
  have h3: "(0::nat) \<notin> {}" by simp
  have h4: "has_unmatched_do (code (?bs ! 0))"
    by (simp add: fragment_def has_unmatched_do_def opens_block_def has_end_keyword_def
        word_char_def after_quote_def starts_with_word_def)
  from merge_emits_merged [OF h1 h2 h3 h4] obtain j where
    "0 < j" "j \<le> length ?bs"
    "prefix ([] @ [(?bs ! 0)\<lparr>code := joined_code ?bs (code (?bs ! 0)) (0 + 1) j,
                              merged := True\<rparr>]) (merge_block_pairs ?bs)"
    by blast
  then have "\<exists>j. 0 < j \<and> j \<le> 4 \<and>
      prefix [(fragment ''form_with do |f|'' 0)
                \<lparr>code := joined_code ?bs ''form_with do |f|'' 1 j, merged := True\<rparr>]
        (merge_block_pairs ?bs)"
    by (intro exI [of _ j]) (simp add: fragment_def)
  with h1 h2 h3 h4 show ?thesis by blast
qed

text \<open>
  C2, as stated, fails where the list ends with the counter still positive: the scan
  over the single following fragment ends at the end of the list with the counter at 1,
  and the output is the merged fragment; the original opener is not in the output.
\<close>

theorem merge_unclosed_counterexample:
  "merge_scan [fragment ''form_with do |f|'' 0, fragment ''f.text_field :x'' 30] 1 1
     ''form_with do |f|'' {} =
     (2, 1, ''form_with do |f|'' @ [newline] @ ''f.text_field :x'', {1}) \<and>
   merge_block_pairs [fragment ''form_with do |f|'' 0, fragment ''f.text_field :x'' 30] =
     [(fragment ''form_with do |f|'' 0)
        \<lparr>code := ''form_with do |f|'' @ [newline] @ ''f.text_field :x'', merged := True\<rparr>] \<and>
   fragment ''form_with do |f|'' 0 \<notin>
     set (merge_block_pairs [fragment ''form_with do |f|'' 0, fragment ''f.text_field :x'' 30])"
  by (simp add: merge_block_pairs_def merge_step_def fragment_def has_unmatched_do_def
      opens_block_def has_end_keyword_def merge_scan.simps word_char_def after_quote_def
      starts_with_word_def nesting_delta_def upt_rec)

section \<open>Preprocessing is idempotent\<close>

lemma sublist_append_last:
  assumes "sublist w (c @ t)" and "w \<noteq> []" and "last w \<notin> set t"
  shows "sublist w c"
proof -
  from assms(1) obtain ps ss where eq: "c @ t = ps @ w @ ss"
    by (auto simp: sublist_def)
  from assms(2) have w: "w = butlast w @ [last w]" by simp
  from eq w have "c @ t = (ps @ butlast w) @ (last w # ss)"
    by (metis append.assoc append_Cons append_Nil)
  then have "\<exists>us. c = (ps @ butlast w) @ us \<and> us @ t = last w # ss \<or>
                c @ us = ps @ butlast w \<and> t = us @ (last w # ss)"
    by (simp only: append_eq_append_conv2)
  then consider us where "c = (ps @ butlast w) @ us" "us @ t = last w # ss"
    | us where "c @ us = ps @ butlast w" "t = us @ (last w # ss)"
    by blast
  then show ?thesis
  proof cases
    case 1
    from 1(2) assms(3) obtain us' where "us = last w # us'"
      by (cases us) auto
    with 1(1) have "c = ps @ (butlast w @ [last w]) @ us'" by simp
    with w show ?thesis by (metis sublist_appendI)
  next
    case 2
    then have "last w \<in> set t" by simp
    with assms(3) show ?thesis by simp
  qed
qed

lemma str_include_append: "str_include c w \<Longrightarrow> str_include (c @ t) w"
  unfolding str_include_def by (metis sublist_append)

lemma str_include_append_last:
  "str_include (c @ t) w \<Longrightarrow> w \<noteq> [] \<Longrightarrow> last w \<notin> set t \<Longrightarrow> str_include c w"
  unfolding str_include_def by (rule sublist_append_last)

lemma after_quote_append:
  "q \<notin> set t \<Longrightarrow>
   after_quote q (cs @ t) = (case after_quote q cs of None \<Rightarrow> None | Some r \<Rightarrow> Some (r @ t))"
  by (auto simp: after_quote_def dropWhile_append1 dropWhile_eq_Nil_conv)

lemma remove_string_literals_append:
  "CHR 0x27 \<notin> set t \<Longrightarrow> CHR 0x22 \<notin> set t \<Longrightarrow>
   remove_string_literals (c @ t) = remove_string_literals c @ remove_string_literals t"
proof (induction c rule: remove_string_literals.induct)
  case 1
  then show ?case by simp
next
  case (2 c cs)
  show ?case
  proof (cases "c = CHR 0x27 \<or> c = CHR 0x22")
    case True
    with "2.prems" have q: "c \<notin> set t" by auto
    show ?thesis
    proof (cases "after_quote c cs")
      case None
      with True q "2.IH"(1) [OF True None "2.prems"] show ?thesis
        by (simp add: after_quote_append)
    next
      case (Some r)
      with True q "2.IH"(2) [OF True Some "2.prems"] show ?thesis
        by (simp add: after_quote_append)
    qed
  next
    case False
    with "2.IH"(3) [OF False "2.prems"] show ?thesis by simp
  qed
qed

lemma remove_string_literals_plain:
  "CHR 0x27 \<notin> set t \<Longrightarrow> CHR 0x22 \<notin> set t \<Longrightarrow> remove_string_literals t = t"
  by (induction t) auto


lemma closers_append: "closers (s @ t) \<longleftrightarrow> closers s \<and> closers t"
  by (auto simp: closers_def)

lemma closers_Nil: "closers []"
  by (simp add: closers_def)

lemma closers_not_word: "closers t \<Longrightarrow> \<not> starts_with_word t"
  by (cases t) (auto simp: closers_def starts_with_word_def word_char_def)

lemma closers_no_quote: "closers t \<Longrightarrow> CHR 0x27 \<notin> set t \<and> CHR 0x22 \<notin> set t"
  by (auto simp: closers_def)

lemma keyword_count_append_mono:
  "\<not> starts_with_word y \<Longrightarrow> keyword_count kw pw x \<le> keyword_count kw pw (x @ y)"
proof (induction x arbitrary: pw)
  case Nil
  then show ?case by simp
next
  case (Cons c cs)
  have "prefix kw (c # cs) \<and> \<not> starts_with_word (drop (length kw) (c # cs)) \<Longrightarrow>
        prefix kw (c # cs @ y) \<and> \<not> starts_with_word (drop (length kw) (c # cs @ y))"
  proof -
    assume a: "prefix kw (c # cs) \<and> \<not> starts_with_word (drop (length kw) (c # cs))"
    then have len: "length kw \<le> length (c # cs)" by (auto dest: prefix_length_le)
    from a have p: "prefix kw ((c # cs) @ y)" by (meson prefix_prefix)
    have d: "drop (length kw) ((c # cs) @ y) = drop (length kw) (c # cs) @ y"
      by (metis drop_append diff_is_0_eq drop_0 len)
    have "\<not> starts_with_word (drop (length kw) (c # cs) @ y)"
      using a Cons.prems by (cases "drop (length kw) (c # cs)") (auto simp: starts_with_word_def)
    with p d show ?thesis by simp
  qed
  with Cons.IH [OF Cons.prems, of "word_char c"] show ?case
    by auto
qed

lemma keyword_count_append_ge:
  "keyword_count kw (if x = [] then pw else word_char (last x)) y \<le> keyword_count kw pw (x @ y)"
proof (induction x arbitrary: pw)
  case Nil
  then show ?case by simp
next
  case (Cons c cs)
  from Cons.IH [of "word_char c"] show ?case
    by (auto split: if_splits)
qed

lemma has_end_keyword_append:
  assumes "has_end_keyword c" and "closers t"
  shows "has_end_keyword (c @ t)"
proof -
  from assms(2) have q: "CHR 0x27 \<notin> set t" "CHR 0x22 \<notin> set t"
    by (simp_all add: closers_no_quote)
  have "remove_string_literals (c @ t) = remove_string_literals c @ t"
    using q by (simp add: remove_string_literals_append remove_string_literals_plain)
  moreover have "keyword_count ''end'' False (remove_string_literals c)
      \<le> keyword_count ''end'' False (remove_string_literals c @ t)"
    using assms(2) by (intro keyword_count_append_mono closers_not_word)
  ultimately show ?thesis
    using assms(1) by (simp add: has_end_keyword_def)
qed

lemma not_word_newline: "\<not> word_char newline" by (simp add: word_char_def newline_def)

lemma keyword_end_line:
  "\<not> starts_with_word t \<Longrightarrow> 0 < keyword_count ''end'' pw (newline # ''end'' @ t)"
  using not_word_newline by simp

lemma has_end_keyword_appended:
  assumes "closers t"
  shows "has_end_keyword (c @ newline # ''end'' @ t)"
proof -
  define y where "y = newline # ''end'' @ t"
  from assms have q: "CHR 0x27 \<notin> set y" "CHR 0x22 \<notin> set y"
    by (auto simp: closers_def newline_def y_def)
  have r: "remove_string_literals (c @ y) = remove_string_literals c @ y"
    by (simp only: remove_string_literals_append [OF q] remove_string_literals_plain [OF q])
  have "\<not> starts_with_word t" using assms by (rule closers_not_word)
  then have k: "0 < keyword_count ''end'' pw y" for pw
    unfolding y_def by (rule keyword_end_line)
  have "keyword_count ''end''
          (if remove_string_literals c = [] then False
           else word_char (last (remove_string_literals c))) y
        \<le> keyword_count ''end'' False (remove_string_literals c @ y)"
    by (rule keyword_count_append_ge)
  with k have "0 < keyword_count ''end'' False (remove_string_literals c @ y)"
    by (rule less_le_trans)
  then have "has_end_keyword (c @ y)"
    by (simp only: has_end_keyword_def r)
  then show ?thesis by (simp only: y_def)
qed


lemma count_list_times_closer:
  "count_list (str_times [CHR '' '', c] n) d =
     (if d = c \<and> d = CHR '' '' then 2 * n else if d = c \<or> d = CHR '' '' then n else 0)"
  by (induction n) (auto simp: str_times_def)

lemma balance_append:
  "\<exists>u. balance opn cls x = x @ u \<and> set u \<subseteq> {CHR '' '', cls}"
proof (cases "str_count x cls < str_count x opn")
  case True
  have "set (str_times [CHR '' '', cls] n) \<subseteq> {CHR '' '', cls}" for n
    by (induction n) (auto simp: str_times_def)
  with True show ?thesis by (auto simp: balance_def)
next
  case False
  then show ?thesis by (simp add: balance_def)
qed

lemma balance_count_other:
  "d \<noteq> CHR '' '' \<Longrightarrow> d \<noteq> cls \<Longrightarrow> str_count (balance opn cls x) d = str_count x d"
  by (simp add: balance_def str_count_def count_list_times_closer)

lemma balance_balanced:
  "opn \<noteq> cls \<Longrightarrow> opn \<noteq> CHR '' '' \<Longrightarrow> cls \<noteq> CHR '' '' \<Longrightarrow>
   str_count (balance opn cls x) opn \<le> str_count (balance opn cls x) cls"
  by (simp add: balance_def str_count_def count_list_times_closer)

lemma balance_id: "str_count x opn \<le> str_count x cls \<Longrightarrow> balance opn cls x = x"
  by (simp add: balance_def)

lemma auto_close_append: "\<exists>t. auto_close c = append_end c @ t \<and> closers t"
proof -
  obtain u1 where u1: "balance (CHR ''{'') (CHR ''}'') (append_end c) = append_end c @ u1"
    "set u1 \<subseteq> {CHR '' '', CHR ''}''}"
    using balance_append by blast
  obtain u2 where u2: "balance (CHR ''['') (CHR '']'') (append_end c @ u1) = (append_end c @ u1) @ u2"
    "set u2 \<subseteq> {CHR '' '', CHR '']''}"
    using balance_append by blast
  obtain u3 where u3: "balance (CHR ''('') (CHR '')'') ((append_end c @ u1) @ u2) = ((append_end c @ u1) @ u2) @ u3"
    "set u3 \<subseteq> {CHR '' '', CHR '')''}"
    using balance_append by blast
  have "auto_close c = ((append_end c @ u1) @ u2) @ u3"
    by (simp only: auto_close_def u1(1) u2(1) u3(1))
  then have "auto_close c = append_end c @ (u1 @ u2 @ u3)"
    by simp
  moreover have "closers (u1 @ u2 @ u3)"
    using u1(2) u2(2) u3(2) by (auto simp: closers_def)
  ultimately show ?thesis by blast
qed

lemma auto_close_balanced:
  "str_count (auto_close c) (CHR ''{'') \<le> str_count (auto_close c) (CHR ''}'')"
  "str_count (auto_close c) (CHR ''['') \<le> str_count (auto_close c) (CHR '']'')"
  "str_count (auto_close c) (CHR ''('') \<le> str_count (auto_close c) (CHR '')'')"
proof -
  define b1 where "b1 = balance (CHR ''{'') (CHR ''}'') (append_end c)"
  define b2 where "b2 = balance (CHR ''['') (CHR '']'') b1"
  have a: "auto_close c = balance (CHR ''('') (CHR '')'') b2"
    by (simp add: auto_close_def b1_def b2_def)
  have "str_count b1 (CHR ''{'') \<le> str_count b1 (CHR ''}'')"
    unfolding b1_def by (rule balance_balanced) simp_all
  then show "str_count (auto_close c) (CHR ''{'') \<le> str_count (auto_close c) (CHR ''}'')"
    by (simp add: a b2_def balance_count_other)
  have "str_count b2 (CHR ''['') \<le> str_count b2 (CHR '']'')"
    unfolding b2_def by (rule balance_balanced) simp_all
  then show "str_count (auto_close c) (CHR ''['') \<le> str_count (auto_close c) (CHR '']'')"
    by (simp add: a balance_count_other)
  show "str_count (auto_close c) (CHR ''('') \<le> str_count (auto_close c) (CHR '')'')"
    unfolding a by (rule balance_balanced) simp_all
qed

lemma append_end_fixed:
  assumes "closers t"
  shows "append_end (append_end c @ t) = append_end c @ t"
proof (cases "has_end_keyword (append_end c @ t)")
  case True
  then show ?thesis by (simp add: append_end_def)
next
  case False
  have no_end: "\<not> has_end_keyword c"
  proof
    assume h: "has_end_keyword c"
    then have "append_end c = c" by (simp add: append_end_def)
    with h assms False show False by (simp add: has_end_keyword_append)
  qed
  have same: "append_end c = c"
  proof (rule ccontr)
    assume "append_end c \<noteq> c"
    with no_end have "append_end c = c @ newline # ''end''"
      by (auto simp: append_end_def split: if_splits)
    then have "append_end c @ t = c @ newline # ''end'' @ t" by simp
    with has_end_keyword_appended [OF assms, of c] False show False by simp
  qed
  from same no_end have c1: "\<not> str_include c '' do |''"
    and c2: "\<not> (str_include c '' do'' \<and> \<not> str_include c ''|'')"
    by (auto simp: append_end_def split: if_splits)
  from assms have t: "CHR ''|'' \<notin> set t" "CHR ''o'' \<notin> set t"
    by (auto simp: closers_def)
  have p1: "\<not> str_include (c @ t) '' do |''"
    using c1 t(1) str_include_append_last [of c t "'' do |''"] by auto
  have p2: "\<not> (str_include (c @ t) '' do'' \<and> \<not> str_include (c @ t) ''|'')"
    using c2 t(2) str_include_append_last [of c t "'' do''"] str_include_append [of c "''|''" t]
    by auto
  from p1 p2 False same have "append_end (c @ t) = c @ t"
    by (simp add: append_end_def)
  then show ?thesis by (simp only: same)
qed

lemma auto_close_idem: "auto_close (auto_close c) = auto_close c"
proof -
  obtain t where t: "auto_close c = append_end c @ t" "closers t"
    using auto_close_append by blast
  have e: "append_end (auto_close c) = auto_close c"
    using append_end_fixed [OF t(2), of c] t(1) by simp
  show ?thesis
    unfolding auto_close_def [of "auto_close c"] e
    by (simp add: balance_id auto_close_balanced)
qed

lemma auto_close_keyword:
  assumes "list_ex (\<lambda>keyword. str_include c keyword) stimulus_keywords"
  shows "list_ex (\<lambda>keyword. str_include (auto_close c) keyword) stimulus_keywords"
proof -
  obtain t where t: "auto_close c = append_end c @ t"
    using auto_close_append by blast
  have "\<exists>e. append_end c = c @ e"
    by (simp add: append_end_def)
  then obtain e where e: "append_end c = c @ e" ..
  from t e have "auto_close c = c @ (e @ t)" by simp
  with assms show ?thesis
    by (auto simp: list_ex_iff intro: str_include_append)
qed

lemma preprocess_erb_code_idempotent:
  "preprocess_erb_code (preprocess_erb_code c) = preprocess_erb_code c"
proof (cases "preprocess_erb_code c = c")
  case True
  then show ?thesis by simp
next
  case False
  then have k: "list_ex (\<lambda>keyword. str_include c keyword) stimulus_keywords"
    and p: "preprocess_erb_code c = auto_close c"
    by (auto simp: preprocess_erb_code_def split: if_splits)
  have "preprocess_erb_code (auto_close c) = auto_close c"
    using auto_close_keyword [OF k] auto_close_idem [of c]
    by (simp add: preprocess_erb_code_def)
  with p show ?thesis by simp
qed

text \<open>
  C6. Preprocessing a preprocessed fragment changes nothing, and a fragment with none
  of the keywords \<open>data\<close>, \<open>controller\<close>, \<open>target\<close>, \<open>action\<close>, \<open>value\<close> is returned as it
  is: no \<open>end\<close> line and no closing bracket is appended.
\<close>

theorem preprocess_erb_code_contract:
  "preprocess_erb_code (preprocess_erb_code c) = preprocess_erb_code c \<and>
   ((\<forall>keyword \<in> set stimulus_keywords. \<not> str_include c keyword) \<longrightarrow>
      preprocess_erb_code c = c)"
proof
  show "preprocess_erb_code (preprocess_erb_code c) = preprocess_erb_code c"
    by (rule preprocess_erb_code_idempotent)
  show "(\<forall>keyword \<in> set stimulus_keywords. \<not> str_include c keyword) \<longrightarrow>
          preprocess_erb_code c = c"
    by (simp add: preprocess_erb_code_def list_ex_iff)
qed

theorem preprocess_erb_code_contract_witness:
  "\<not> list_ex (str_include ''form_with(url: x) do |f| {'') stimulus_keywords \<and>
   preprocess_erb_code (preprocess_erb_code ''form_with(url: x) do |f| {'') =
     preprocess_erb_code ''form_with(url: x) do |f| {'' \<and>
   preprocess_erb_code ''form_with(url: x) do |f| {'' = ''form_with(url: x) do |f| {''"
proof -
  have h: "\<not> list_ex (str_include ''form_with(url: x) do |f| {'') stimulus_keywords"
    by (simp add: stimulus_keywords_def str_include_def sublist_code)
  with preprocess_erb_code_contract [of "''form_with(url: x) do |f| {''"] show ?thesis
    by (simp add: list_ex_iff)
qed

section \<open>The queries do not rescue the parser\<close>

lemma each_collect_Inl:
  "(\<exists>e. each_collect body xs = Inl e) \<longleftrightarrow> (\<exists>x\<in>set xs. \<exists>e. body x = Inl e)"
  by (induction xs) (auto split: sum.splits)

lemma query_block_Inl:
  "query_block parse p should_parse find_in_ast b = Inl e \<longleftrightarrow>
     e = SyntaxError \<and> should_parse (code b) \<and> parse (preprocess_erb_code (code b)) = None"
  by (auto simp: query_block_def split: option.splits)

lemma query_loop_fail_fast:
  "(if \<exists>b\<in>set bs. should_parse (code b) \<and> parse (preprocess_erb_code (code b)) = None
    then each_collect (query_block parse p should_parse find_in_ast) bs = Inl SyntaxError
    else \<exists>rs. each_collect (query_block parse p should_parse find_in_ast) bs = Inr rs)"
proof -
  have a: "each_collect (query_block parse p should_parse find_in_ast) bs = Inl e \<Longrightarrow>
        e = SyntaxError" for e
    by (induction bs) (auto simp: query_block_Inl split: sum.splits)
  show ?thesis
  proof (cases "\<exists>b\<in>set bs. should_parse (code b) \<and> parse (preprocess_erb_code (code b)) = None")
    case True
    then have "\<exists>e. each_collect (query_block parse p should_parse find_in_ast) bs = Inl e"
      unfolding each_collect_Inl by (auto simp: query_block_Inl)
    then obtain e where "each_collect (query_block parse p should_parse find_in_ast) bs = Inl e" ..
    with a have "each_collect (query_block parse p should_parse find_in_ast) bs = Inl SyntaxError"
      by blast
    then show ?thesis unfolding if_P [OF True] .
  next
    case False
    then have "\<not> (\<exists>e. each_collect (query_block parse p should_parse find_in_ast) bs = Inl e)"
      unfolding each_collect_Inl by (auto simp: query_block_Inl)
    then have "\<exists>rs. each_collect (query_block parse p should_parse find_in_ast) bs = Inr rs"
      by (cases "each_collect (query_block parse p should_parse find_in_ast) bs") auto
    then show ?thesis unfolding if_not_P [OF False] .
  qed
qed

text \<open>
  C1, as the code has it. The three queries skip exactly the fragments that their
  keyword pre-filter rejects. A fragment that passes the pre-filter and whose
  preprocessed code the parser rejects is not skipped: the query raises the parser's
  \<open>SyntaxError\<close> ("fail fast on errors"), and it returns matches exactly when no such
  fragment exists. Only the controller scan of the coverage statistics catches the
  error and goes on with the next fragment.
\<close>

theorem find_stimulus_queries_fail_fast:
  "(if \<exists>b\<in>set (erb_blocks p). should_parse_for_targets (code b) controller_name target_name \<and>
          parse (preprocess_erb_code (code b)) = None
    then find_stimulus_targets parse p controller_name target_name = Inl SyntaxError
    else \<exists>rs. find_stimulus_targets parse p controller_name target_name = Inr rs) \<and>
   (if \<exists>b\<in>set (erb_blocks p). should_parse_for_actions (code b) \<and>
          parse (preprocess_erb_code (code b)) = None
    then find_stimulus_actions parse p filter_name = Inl SyntaxError
    else \<exists>rs. find_stimulus_actions parse p filter_name = Inr rs) \<and>
   (if \<exists>b\<in>set (erb_blocks p). should_parse_for_values (code b) controller_name value_name \<and>
          parse (preprocess_erb_code (code b)) = None
    then find_stimulus_values parse p controller_name value_name = Inl SyntaxError
    else \<exists>rs. find_stimulus_values parse p controller_name value_name = Inr rs) \<and>
   (found_in_erb parse p controller_name \<longleftrightarrow>
      (\<exists>b\<in>set (erb_blocks p). str_include (code b) ''data'' \<and> str_include (code b) ''controller'' \<and>
          (\<exists>tree. parse (preprocess_erb_code (code b)) = Some tree \<and>
             contains_controller_in_ast tree controller_name)))"
proof -
  have "found_in_erb parse p controller_name \<longleftrightarrow>
      (\<exists>b\<in>set (erb_blocks p). str_include (code b) ''data'' \<and> str_include (code b) ''controller'' \<and>
          (\<exists>tree. parse (preprocess_erb_code (code b)) = Some tree \<and>
             contains_controller_in_ast tree controller_name))"
    by (auto simp: found_in_erb_def list_ex_iff split: option.splits)
  moreover note
    query_loop_fail_fast [of "erb_blocks p"
      "\<lambda>c. should_parse_for_targets c controller_name target_name" parse p
      "\<lambda>tree. find_targets_in_ast tree controller_name target_name"]
    query_loop_fail_fast [of "erb_blocks p" should_parse_for_actions parse p
      "\<lambda>tree. find_actions_in_ast tree filter_name"]
    query_loop_fail_fast [of "erb_blocks p"
      "\<lambda>c. should_parse_for_values c controller_name value_name" parse p
      "\<lambda>tree. find_values_in_ast tree controller_name value_name"]
  ultimately show ?thesis
    unfolding find_stimulus_targets_def find_stimulus_actions_def find_stimulus_values_def
    by blast
qed

theorem find_stimulus_queries_fail_fast_witness:
  "(\<exists>b\<in>set (erb_blocks (erb_ast_parser_new bad_view)).
      should_parse_for_actions (code b) \<and> sample_parse (preprocess_erb_code (code b)) = None) \<and>
   find_stimulus_actions sample_parse (erb_ast_parser_new bad_view) None = Inl SyntaxError"
proof -
  have h: "\<exists>b\<in>set (erb_blocks (erb_ast_parser_new bad_view)).
      should_parse_for_actions (code b) \<and> sample_parse (preprocess_erb_code (code b)) = None"
    by code_simp
  with find_stimulus_queries_fail_fast [where parse = sample_parse
      and p = "erb_ast_parser_new bad_view" and filter_name = None]
  show ?thesis by presburger
qed

text \<open>
  C1, as stated, fails on a view with one unparseable fragment: the action query over
  it raises instead of skipping the fragment.
\<close>

theorem find_stimulus_actions_raises_counterexample:
  "find_stimulus_actions sample_parse (erb_ast_parser_new bad_view) None = Inl SyntaxError"
  by code_simp

section \<open>The action query on one hash pair\<close>

lemma word_take_drop:
  assumes "word w" and "\<not> starts_with_word r"
  shows "takeWhile word_char (w @ r) = w" and "dropWhile word_char (w @ r) = r"
proof -
  from assms(1) have all: "\<forall>c\<in>set w. word_char c" by (simp add: word_def list_all_iff)
  from assms(2) have r: "r = [] \<or> \<not> word_char (hd r)"
    by (cases r) (auto simp: starts_with_word_def)
  from all r show "takeWhile word_char (w @ r) = w"
    by (cases r) (auto simp: takeWhile_append2)
  from all r show "dropWhile word_char (w @ r) = r"
    by (cases r) (auto simp: dropWhile_append2)
qed

lemma word_takeWhile: "takeWhile word_char s \<noteq> [] \<Longrightarrow> word (takeWhile word_char s)"
  by (auto simp: word_def list_all_iff dest: set_takeWhileD)

lemma not_starts_dropWhile: "\<not> starts_with_word (dropWhile word_char s)"
proof (cases "dropWhile word_char s")
  case Nil
  show ?thesis unfolding starts_with_word_def Nil by simp
next
  case (Cons d r)
  then have "\<not> word_char d" by (metis hd_dropWhile list.sel(1) list.distinct(1))
  with Cons show ?thesis by (simp add: starts_with_word_def)
qed

lemma word_start: "word w \<Longrightarrow> starts_with_word (w @ r)"
  by (cases w) (auto simp: word_def starts_with_word_def)

lemma joined_words_start: "joined_words sep x \<Longrightarrow> starts_with_word x"
  by (induction rule: joined_words.induct) (use word_start [of _ "[]"] in \<open>auto intro: word_start\<close>)

lemma words_sep_unfold:
  "words_sep sep s =
     (if takeWhile word_char s = [] then None
      else (case dropWhile word_char s of
              d # e # r' \<Rightarrow>
                if d = sep \<and> word_char e then
                  (case words_sep sep (e # r') of
                     Some (m, rest) \<Rightarrow> Some (takeWhile word_char s @ sep # m, rest)
                   | None \<Rightarrow> Some (takeWhile word_char s, dropWhile word_char s))
                else Some (takeWhile word_char s, dropWhile word_char s)
            | _ \<Rightarrow> Some (takeWhile word_char s, dropWhile word_char s)))"
  by (subst words_sep.simps) (simp only: Let_def)

lemma words_sep_not_None: "takeWhile word_char s \<noteq> [] \<Longrightarrow> words_sep sep s \<noteq> None"
  by (subst words_sep_unfold) (simp split: list.split option.split prod.split)

lemma words_sep_sound:
  "words_sep sep s = Some (x, r) \<Longrightarrow> s = x @ r \<and> joined_words sep x \<and> stops sep r"
proof (induction sep s arbitrary: x r rule: words_sep.induct)
  case (1 sep s)
  define w0 where "w0 = takeWhile word_char s"
  define r0 where "r0 = dropWhile word_char s"
  have unfold: "words_sep sep s =
     (if w0 = [] then None
      else (case r0 of
              d # e # r' \<Rightarrow>
                if d = sep \<and> word_char e then
                  (case words_sep sep (e # r') of
                     Some (m, rest) \<Rightarrow> Some (w0 @ sep # m, rest)
                   | None \<Rightarrow> Some (w0, r0))
                else Some (w0, r0)
            | _ \<Rightarrow> Some (w0, r0)))"
    unfolding w0_def r0_def by (rule words_sep_unfold)
  have w: "w0 \<noteq> []"
  proof
    assume "w0 = []"
    then have "words_sep sep s = None" by (simp only: unfold) simp
    with "1.prems" show False by simp
  qed
  then have ww: "word w0" unfolding w0_def by (rule word_takeWhile)
  have s: "s = w0 @ r0" by (simp add: w0_def r0_def)
  have nr: "\<not> starts_with_word r0" unfolding r0_def by (rule not_starts_dropWhile)
  show ?case
  proof (cases "\<exists>e r'. r0 = sep # e # r' \<and> word_char e")
    case True
    then obtain e r' where r: "r0 = sep # e # r'" and e: "word_char e" by blast
    have "takeWhile word_char (e # r') \<noteq> []" using e by simp
    then have "words_sep sep (e # r') \<noteq> None"
      by (rule words_sep_not_None)
    then obtain m rest where rec: "words_sep sep (e # r') = Some (m, rest)"
      by (cases "words_sep sep (e # r')") auto
    have se: "sep = sep \<and> word_char e" using e by simp
    from "1.IH" [OF refl refl w [unfolded w0_def] r [unfolded r0_def] refl se rec]
    have ih: "e # r' = m @ rest" "joined_words sep m" "stops sep rest" by auto
    have "words_sep sep s = Some (w0 @ sep # m, rest)"
      by (simp only: unfold) (simp add: w r e rec)
    with "1.prems" have "x = w0 @ sep # m" "r = rest"
      by simp_all
    moreover have "s = (w0 @ sep # m) @ rest"
      using s r ih(1) by simp
    ultimately show ?thesis
      using ih ww by (auto intro: joined_words.more)
  next
    case False
    have "words_sep sep s = Some (w0, r0)"
      using False w by (simp only: unfold) (auto split: list.split)
    with "1.prems" have xr: "x = w0" "r = r0"
      by simp_all
    have "stops sep r0"
      using False nr by (auto simp: stops_def starts_with_word_def split: list.splits)
    with xr ww s show ?thesis by (auto intro: joined_words.single)
  qed
qed

lemma words_sep_complete:
  "joined_words sep x \<Longrightarrow> \<not> word_char sep \<Longrightarrow> stops sep r \<Longrightarrow> words_sep sep (x @ r) = Some (x, r)"
proof (induction arbitrary: r rule: joined_words.induct)
  case (single w)
  from single(3) have nr: "\<not> starts_with_word r"
    by (auto simp: stops_def starts_with_word_def split: list.splits)
  from single(1) have ne: "w \<noteq> []" by (simp add: word_def)
  from single(3) have "\<not> (\<exists>e r'. r = sep # e # r' \<and> word_char e)"
    by (auto simp: stops_def starts_with_word_def)
  then show ?case
    using word_take_drop [OF single(1) nr] ne
    by (subst words_sep_unfold) (auto split: list.splits)
next
  case (more w x)
  from more(1) have ne: "w \<noteq> []" by (simp add: word_def)
  from joined_words_start [OF more(2)] obtain e x' where x: "x = e # x'" and e: "word_char e"
    by (cases x) (auto simp: starts_with_word_def)
  have nr: "\<not> starts_with_word (sep # e # x' @ r)"
    using more.prems(1) by (simp add: starts_with_word_def)
  have td: "takeWhile word_char (w @ sep # e # x' @ r) = w"
    "dropWhile word_char (w @ sep # e # x' @ r) = sep # e # x' @ r"
    using word_take_drop [OF more(1) nr] by simp_all
  have rec: "words_sep sep (e # x' @ r) = Some (e # x', r)"
    using more.IH [OF more.prems] x by simp
  have "words_sep sep (w @ sep # e # x' @ r) = Some (w @ sep # e # x', r)"
    by (subst words_sep_unfold) (simp add: td ne e rec)
  then show ?case using x by simp
qed

lemma not_word_special:
  "\<not> word_char (CHR ''-'')" "\<not> word_char (CHR ''.'')" "\<not> word_char (CHR ''#'')"
  "\<not> word_char (CHR ''@'')" "\<not> word_char (CHR ''>'')"
  by (simp_all add: word_char_def)

lemma word_take_drop_nil:
  "word w \<Longrightarrow> takeWhile word_char w = w" "word w \<Longrightarrow> dropWhile word_char w = []"
  by (simp_all add: word_def list_all_iff)

lemma starts_with_word_append: "starts_with_word a \<Longrightarrow> starts_with_word (a @ b)"
  by (cases a) (simp_all add: starts_with_word_def)

lemma option_text_start: "\<not> starts_with_word (option_text opt)"
  by (cases opt) (simp_all add: option_text_def starts_with_word_def not_word_special)

lemma controller_method_sound:
  assumes "controller_method s = Some (ctrl, m)"
  shows "cm_pattern s ctrl m"
proof -
  from assms obtain c0 r where ws0: "words_sep (CHR ''-'') s = Some (c0, r)"
    by (auto simp: controller_method_def split: option.splits)
  with assms have "c0 = ctrl"
    by (auto simp: controller_method_def Let_def split: list.splits if_splits)
  with ws0 have ws: "words_sep (CHR ''-'') s = Some (ctrl, r)" by simp
  from words_sep_sound [OF ws] have s: "s = ctrl @ r" and j: "joined_words (CHR ''-'') ctrl"
    by auto
  from assms ws obtain r2 where r: "r = CHR ''#'' # r2"
    by (auto simp: controller_method_def split: list.splits if_splits)
  define r3 where "r3 = dropWhile word_char r2"
  from assms ws r have m: "m = takeWhile word_char r2" and ne: "takeWhile word_char r2 \<noteq> []"
    and tail: "r3 = [] \<or> (\<exists>ow. r3 = CHR ''@'' # ow \<and> ow \<noteq> [] \<and> list_all word_char ow)"
    by (auto simp: controller_method_def Let_def r3_def split: list.splits if_splits)
  from ne m have wm: "word m" by (simp add: word_takeWhile)
  have r2: "r2 = m @ r3" by (simp add: m r3_def)
  from tail obtain opt where "r3 = option_text opt" "case opt of None \<Rightarrow> True | Some ow \<Rightarrow> word ow"
  proof
    assume "r3 = []"
    then have "r3 = option_text None" by (simp add: option_text_def)
    then show ?thesis using that [of None] by simp
  next
    assume "\<exists>ow. r3 = CHR ''@'' # ow \<and> ow \<noteq> [] \<and> list_all word_char ow"
    then obtain ow where "r3 = CHR ''@'' # ow" "ow \<noteq> []" "list_all word_char ow" by blast
    then show ?thesis using that [of "Some ow"] by (simp add: option_text_def word_def)
  qed
  with s r r2 j wm show ?thesis
    unfolding cm_pattern_def by (intro exI [of _ opt]) simp
qed

lemma controller_method_complete:
  assumes "cm_pattern s ctrl m"
  shows "controller_method s = Some (ctrl, m)"
proof -
  from assms obtain opt where s: "s = ctrl @ ''#'' @ m @ option_text opt"
    and j: "joined_words (CHR ''-'') ctrl" and wm: "word m"
    and o: "case opt of None \<Rightarrow> True | Some ow \<Rightarrow> word ow"
    unfolding cm_pattern_def by blast
  have st: "stops (CHR ''-'') (''#'' @ m @ option_text opt)"
    by (simp add: stops_def not_word_special)
  have ws: "words_sep (CHR ''-'') s = Some (ctrl, ''#'' @ m @ option_text opt)"
    unfolding s by (rule words_sep_complete [OF j not_word_special(1) st])
  have td: "takeWhile word_char (m @ option_text opt) = m"
    "dropWhile word_char (m @ option_text opt) = option_text opt"
    using word_take_drop [OF wm option_text_start] by simp_all
  from wm have ne: "m \<noteq> []" by (simp add: word_def)
  show ?thesis
  proof (cases opt)
    case None
    with ws ne wm show ?thesis
      by (simp add: controller_method_def option_text_def Let_def word_take_drop_nil)
  next
    case (Some ow)
    with o have "ow \<noteq> []" "list_all word_char ow" by (simp_all add: word_def)
    moreover from Some td have "takeWhile word_char (m @ CHR ''@'' # ow) = m"
      "dropWhile word_char (m @ CHR ''@'' # ow) = CHR ''@'' # ow"
      by (simp_all add: option_text_def)
    ultimately show ?thesis using Some ws ne
      by (simp add: controller_method_def option_text_def)
  qed
qed

lemma event_prefix_sound:
  assumes "event_prefix s = Some (e, r)"
  shows "s = e @ ''->'' @ r \<and> joined_words (CHR ''.'') e"
proof -
  from assms obtain r' where ws: "words_sep (CHR ''.'') s = Some (e, r')"
    and p: "prefix ''->'' r'" and r: "r = drop 2 r'"
    by (auto simp: event_prefix_def split: option.splits if_splits)
  from p r have "r' = ''->'' @ r" by (auto simp: prefix_def)
  with words_sep_sound [OF ws] show ?thesis by simp
qed

lemma event_prefix_complete:
  assumes "joined_words (CHR ''.'') e"
  shows "event_prefix (e @ ''->'' @ r) = Some (e, r)"
proof -
  have st: "stops (CHR ''.'') (''->'' @ r)"
    by (simp add: stops_def not_word_special)
  have "words_sep (CHR ''.'') (e @ ''->'' @ r) = Some (e, ''->'' @ r)"
    by (rule words_sep_complete [OF assms not_word_special(2) st])
  then show ?thesis by (simp add: event_prefix_def)
qed

lemma joined_words_first:
  "joined_words sep x \<Longrightarrow>
     \<exists>w t. x = w @ t \<and> word w \<and> (t = [] \<or> (\<exists>t'. t = sep # t' \<and> starts_with_word t'))"
proof (induction rule: joined_words.induct)
  case (single w)
  then show ?case by (intro exI [of _ w] exI [of _ "[]"]) simp
next
  case (more w x)
  from joined_words_start [OF more(2)] more(1) show ?case
    by (intro exI [of _ w] exI [of _ "sep # x"]) simp
qed

lemma event_prefix_plain:
  assumes "cm_pattern s ctrl m"
  shows "event_prefix s = None"
proof -
  from assms obtain opt where s: "s = ctrl @ ''#'' @ m @ option_text opt"
    and j: "joined_words (CHR ''-'') ctrl"
    unfolding cm_pattern_def by blast
  from joined_words_first [OF j] obtain w t where c: "ctrl = w @ t" and w: "word w"
    and t: "t = [] \<or> (\<exists>t'. t = CHR ''-'' # t' \<and> starts_with_word t')"
    by blast
  define rest where "rest = t @ ''#'' @ m @ option_text opt"
  have s': "s = w @ rest" by (simp add: s c rest_def)
  have "\<exists>d rest'. rest = d # rest' \<and> (d = CHR ''#'' \<or> d = CHR ''-'') \<and>
          (d = CHR ''-'' \<longrightarrow> starts_with_word rest')"
  proof (cases "t = []")
    case True
    then show ?thesis by (simp add: rest_def)
  next
    case False
    with t obtain t' where "t = CHR ''-'' # t'" "starts_with_word t'" by blast
    then show ?thesis by (simp add: rest_def starts_with_word_append)
  qed
  then obtain d rest' where rest: "rest = d # rest'" and d: "d = CHR ''#'' \<or> d = CHR ''-''"
    and nx: "d = CHR ''-'' \<longrightarrow> starts_with_word rest'"
    by blast
  have nr: "\<not> starts_with_word rest"
    using rest d by (auto simp: starts_with_word_def not_word_special)
  have td: "takeWhile word_char s = w" "dropWhile word_char s = rest"
    unfolding s' using word_take_drop [OF w nr] by simp_all
  from w have ne: "w \<noteq> []" by (simp add: word_def)
  have dn: "d \<noteq> CHR ''.''" using d by auto
  have ws: "words_sep (CHR ''.'') s = Some (w, rest)"
    by (subst words_sep_unfold) (simp add: td ne rest dn split: list.split)
  have "\<not> prefix ''->'' rest"
  proof
    assume "prefix ''->'' rest"
    with rest obtain rest'' where "d = CHR ''-''" "rest' = CHR ''>'' # rest''"
      by (auto simp: prefix_def)
    with nx show False by (simp add: starts_with_word_def not_word_special)
  qed
  with ws show ?thesis by (simp add: event_prefix_def)
qed

lemma action_pattern_cm:
  "action_pattern tok ev ctrl m \<longleftrightarrow>
     (case ev of None \<Rightarrow> cm_pattern tok ctrl m
      | Some e \<Rightarrow> \<exists>r. tok = e @ ''->'' @ r \<and> joined_words (CHR ''.'') e \<and> cm_pattern r ctrl m)"
  by (cases ev) (auto simp: action_pattern_def cm_pattern_def option_text_def)

lemma match_action_pattern:
  "match_action tok = Some a \<longleftrightarrow>
     pa_action a = tok \<and> action_pattern tok (pa_event a) (pa_controller a) (pa_method a)"
proof
  assume m: "match_action tok = Some a"
  show "pa_action a = tok \<and> action_pattern tok (pa_event a) (pa_controller a) (pa_method a)"
  proof (cases "event_prefix tok")
    case None
    with m obtain c mm where cm: "controller_method tok = Some (c, mm)"
      and a: "a = \<lparr>pa_action = tok, pa_event = None, pa_controller = c, pa_method = mm\<rparr>"
      by (auto simp: match_action_def)
    from controller_method_sound [OF cm] a show ?thesis
      by (simp add: action_pattern_cm)
  next
    case (Some er)
    then obtain e r where ep: "event_prefix tok = Some (e, r)" by (cases er) auto
    show ?thesis
    proof (cases "controller_method r")
      case None
      with m ep obtain c mm where cm: "controller_method tok = Some (c, mm)"
        by (auto simp: match_action_def)
      from event_prefix_plain [OF controller_method_sound [OF cm]] ep show ?thesis by simp
    next
      case (Some cmm)
      then obtain c mm where cm: "controller_method r = Some (c, mm)" by (cases cmm) auto
      with m ep have a: "a = \<lparr>pa_action = tok, pa_event = Some e, pa_controller = c, pa_method = mm\<rparr>"
        by (auto simp: match_action_def)
      from event_prefix_sound [OF ep] controller_method_sound [OF cm] a show ?thesis
        by (auto simp: action_pattern_cm)
    qed
  qed
next
  assume p: "pa_action a = tok \<and> action_pattern tok (pa_event a) (pa_controller a) (pa_method a)"
  show "match_action tok = Some a"
  proof (cases "pa_event a")
    case None
    with p have cm: "cm_pattern tok (pa_controller a) (pa_method a)"
      by (simp add: action_pattern_cm)
    from event_prefix_plain [OF cm] controller_method_complete [OF cm] p None
    show ?thesis by (simp add: match_action_def)
  next
    case (Some e)
    with p obtain r where t: "tok = e @ ''->'' @ r" and j: "joined_words (CHR ''.'') e"
      and cm: "cm_pattern r (pa_controller a) (pa_method a)"
      by (auto simp: action_pattern_cm)
    from event_prefix_complete [OF j, of r] controller_method_complete [OF cm] p Some t
    show ?thesis by (simp add: match_action_def)
  qed
qed

lemma split_where_run:
  assumes "\<forall>c\<in>set a. \<not> P c"
  shows "split_where P a = [a]"
    and "P d \<Longrightarrow> split_where P (a @ d # r) = a # split_where P r"
  using assms by (induction a) auto

lemma split_where_leading:
  "filter (\<lambda>t. t \<noteq> []) (split_where P s) = filter (\<lambda>t. t \<noteq> []) (split_where P (dropWhile P s))"
  by (induction s) auto

lemma scan_tokens_split:
  "scan_tokens s = filter (\<lambda>t. t \<noteq> []) (split_where space_char s)"
proof (induction s rule: scan_tokens.induct)
  case (1 s)
  define s' where "s' = dropWhile space_char s"
  define tok where "tok = takeWhile (\<lambda>c. \<not> space_char c) s'"
  define r where "r = dropWhile (\<lambda>c. \<not> space_char c) s'"
  have st: "scan_tokens s = (if s' = [] then [] else tok # scan_tokens r)"
    by (subst scan_tokens.simps) (simp add: Let_def s'_def tok_def r_def)
  have lead: "filter (\<lambda>t. t \<noteq> []) (split_where space_char s) =
              filter (\<lambda>t. t \<noteq> []) (split_where space_char s')"
    unfolding s'_def by (rule split_where_leading)
  show ?case
  proof (cases "s' = []")
    case True
    with st lead show ?thesis by simp
  next
    case False
    from "1.IH" [OF s'_def False] have ih:
      "scan_tokens r = filter (\<lambda>t. t \<noteq> []) (split_where space_char r)"
      by (simp add: r_def)
    have s'': "s' = tok @ r" by (simp add: tok_def r_def)
    have notsp: "\<forall>c\<in>set tok. \<not> space_char c"
      unfolding tok_def by (auto dest: set_takeWhileD)
    from False have "\<not> space_char (hd s')"
      unfolding s'_def using hd_dropWhile by metis
    with False have ne: "tok \<noteq> []"
      unfolding tok_def by (cases s') auto
    have "filter (\<lambda>t. t \<noteq> []) (split_where space_char s') = tok # scan_tokens r"
    proof (cases r)
      case Nil
      have "scan_tokens [] = []" by (subst scan_tokens.simps) simp
      with Nil s'' ne split_where_run(1) [OF notsp] show ?thesis by simp
    next
      case (Cons d r')
      then have "space_char d"
        unfolding r_def by (metis (mono_tags, lifting) hd_dropWhile list.sel(1) list.distinct(1))
      with Cons s'' ne split_where_run(2) [OF notsp, of d r'] ih show ?thesis
        by simp
    qed
    with st lead False show ?thesis by simp
  qed
qed

lemma find_actions_in_hash_pair:
  assumes "is_action_key key_node"
  shows "find_actions_in_hash
           (Node ''hash'' (before @ [Node ''pair'' [key_node, Node ''str'' [StrVal s]]] @ after))
           controller_name =
         find_actions_in_hash (Node ''hash'' before) controller_name @
         map (\<lambda>a. \<lparr>am_action_string = s, am_parsed_action = a, am_key_node = key_node,
                     am_value_node = Node ''str'' [StrVal s]\<rparr>)
           (filter (\<lambda>a. controller_name = None \<or> controller_name = Some (pa_controller a))
              (List.map_filter match_action
                 (filter (\<lambda>tok. tok \<noteq> []) (split_where space_char s)))) @
         find_actions_in_hash (Node ''hash'' after) controller_name"
proof -
  from assms have "key_node \<noteq> NilVal"
    by (auto simp: is_action_key_def has_type_def)
  with assms have "find_actions_in_hash
           (Node ''hash'' (before @ [Node ''pair'' [key_node, Node ''str'' [StrVal s]]] @ after))
           controller_name =
         find_actions_in_hash (Node ''hash'' before) controller_name @
         map (\<lambda>a. \<lparr>am_action_string = s, am_parsed_action = a, am_key_node = key_node,
                     am_value_node = Node ''str'' [StrVal s]\<rparr>)
           (filter (\<lambda>a. controller_name = None \<or> controller_name = Some (pa_controller a))
              (List.map_filter match_action (scan_tokens s))) @
         find_actions_in_hash (Node ''hash'' after) controller_name"
    by (simp add: find_actions_in_hash_def actions_in_pair_def children_def child_def
        has_type_def parse_action_string_def)
  then show ?thesis
    by (simp only: scan_tokens_split)
qed

section \<open>The action query on a tree\<close>

lemma count_list_concat:
  "count_list (concat xss) m = sum_list (map (\<lambda>xs. count_list xs m) xss)"
  by (induction xss) simp_all

lemma concat_map_filter_if:
  "concat (map (\<lambda>a. if P a then f a else []) xs) = concat (map f (filter P xs))"
  by (induction xs) simp_all

lemma find_actions_in_method_call_hashes:
  "find_actions_in_method_call (Node t cs) controller_name =
     concat (map (\<lambda>h. find_actions_in_hash h controller_name)
               (filter (\<lambda>arg. has_type arg ''hash'') (drop 2 cs)))"
  by (simp add: find_actions_in_method_call_def children_def concat_map_filter_if)

lemma action_walk_count:
  "count_list (find_actions_in_ast tree controller_name) m =
     count_list (concat (map (\<lambda>h. find_actions_in_hash h controller_name) (hash_nodes tree))) m +
     count_list (concat (map (\<lambda>h. find_actions_in_hash h controller_name)
                           (call_argument_hashes tree))) m"
proof (induction tree controller_name rule: find_actions_in_ast.induct)
  case (1 t cs controller_name)
  let ?F = "\<lambda>h. find_actions_in_hash h controller_name"
  have ih: "(\<Sum>c\<leftarrow>cs. count_list (find_actions_in_ast c controller_name) m) =
        (\<Sum>c\<leftarrow>cs. count_list (concat (map ?F (hash_nodes c))) m) +
        (\<Sum>c\<leftarrow>cs. count_list (concat (map ?F (call_argument_hashes c))) m)"
    using 1 by (induction cs) simp_all
  have a: "count_list (concat (map ?F (concat (map g cs)))) m =
        (\<Sum>c\<leftarrow>cs. count_list (concat (map ?F (g c))) m)" for g
    by (induction cs) simp_all
  have b: "count_list (concat (map (\<lambda>c. find_actions_in_ast c controller_name) cs)) m =
        (\<Sum>c\<leftarrow>cs. count_list (find_actions_in_ast c controller_name) m)"
    by (induction cs) simp_all
  show ?case
    by (simp add: find_actions_in_method_call_hashes a b ih)
qed simp_all

lemma each_collect_total:
  "\<forall>x\<in>set xs. \<exists>r. body x = Inr r \<Longrightarrow>
     each_collect body xs = Inr (concat (map (\<lambda>x. case body x of Inr r \<Rightarrow> r | Inl e \<Rightarrow> []) xs))"
  by (induction xs) auto

lemma query_over_file:
  assumes "\<not> (\<exists>b\<in>set (erb_blocks p). should_parse (code b) \<and>
                 parse (preprocess_erb_code (code b)) = None)"
  shows "each_collect (query_block parse p should_parse find_in_ast) (erb_blocks p) =
           Inr (concat (map (\<lambda>b. case parse (preprocess_erb_code (code b)) of
                                     None \<Rightarrow> []
                                   | Some tree \<Rightarrow>
                                       map (\<lambda>m. \<lparr>r_block = b, r_match = m,
                                          line_number = calculate_line_number p (fst (position b))\<rparr>)
                                         (find_in_ast tree))
                          (filter (\<lambda>b. should_parse (code b)) (erb_blocks p))))"
proof -
  let ?body = "query_block parse p should_parse find_in_ast"
  let ?f = "\<lambda>b. case parse (preprocess_erb_code (code b)) of
                   None \<Rightarrow> []
                 | Some tree \<Rightarrow>
                     map (\<lambda>m. \<lparr>r_block = b, r_match = m,
                        line_number = calculate_line_number p (fst (position b))\<rparr>)
                       (find_in_ast tree)"
  from assms have ok: "\<forall>b\<in>set (erb_blocks p). \<exists>r. ?body b = Inr r"
    by (auto simp: query_block_def split: option.splits)
  have v: "(case ?body b of Inr r \<Rightarrow> r | Inl e \<Rightarrow> []) =
           (if should_parse (code b) then ?f b else [])" for b
    by (simp add: query_block_def split: option.splits)
  have "concat (map (\<lambda>b. if should_parse (code b) then ?f b else []) (erb_blocks p)) =
        concat (map ?f (filter (\<lambda>b. should_parse (code b)) (erb_blocks p)))"
    by (rule concat_map_filter_if)
  with each_collect_total [OF ok] show ?thesis
    by (simp only: v)
qed


text \<open>
  C7, as the code has it. In a hash node, a pair whose key is the string or the symbol
  \<open>action\<close> and whose value is a string node contributes, at its place among the pairs,
  one match for each piece of the string between whitespace that the pattern
  \<open>[event->]controller#method[@option]\<close> matches; the other pieces contribute nothing,
  and with a controller filter only the tokens whose controller is the filter remain.
  The second part says what matching the pattern is: the token is the event (if any),
  the controller, the method and the option (if any) with their separators, and the
  match holds the token, the event, the controller and the method. The third part is
  the walk of the action query over the tree of a fragment: it takes the matches of
  every hash node of the tree once, and those of every hash node that is a direct
  argument of a call once more; each match occurs in its result as often as these hash
  nodes yield it. The fourth part is the query over a file whose fragments parse: its
  result is made of the matches of the walk over the tree of each fragment that passes
  the pre-filter, in the order of the fragments, each with its fragment and line.
\<close>

theorem action_query_matches:
  assumes "is_action_key key_node"
  shows "find_actions_in_hash
           (Node ''hash'' (before @ [Node ''pair'' [key_node, Node ''str'' [StrVal s]]] @ after))
           controller_name =
         find_actions_in_hash (Node ''hash'' before) controller_name @
         map (\<lambda>a. \<lparr>am_action_string = s, am_parsed_action = a, am_key_node = key_node,
                     am_value_node = Node ''str'' [StrVal s]\<rparr>)
           (filter (\<lambda>a. controller_name = None \<or> controller_name = Some (pa_controller a))
              (List.map_filter match_action
                 (filter (\<lambda>tok. tok \<noteq> []) (split_where space_char s)))) @
         find_actions_in_hash (Node ''hash'' after) controller_name \<and>
         (\<forall>tok a. match_action tok = Some a \<longleftrightarrow>
            pa_action a = tok \<and>
            action_pattern tok (pa_event a) (pa_controller a) (pa_method a)) \<and>
         (\<forall>tree m. count_list (find_actions_in_ast tree controller_name) m =
            count_list (concat (map (\<lambda>h. find_actions_in_hash h controller_name)
                                  (hash_nodes tree))) m +
            count_list (concat (map (\<lambda>h. find_actions_in_hash h controller_name)
                                  (call_argument_hashes tree))) m) \<and>
         (\<not> (\<exists>b\<in>set (erb_blocks p). should_parse_for_actions (code b) \<and>
                 parse (preprocess_erb_code (code b)) = None) \<longrightarrow>
          find_stimulus_actions parse p controller_name =
            Inr (concat (map (\<lambda>b. case parse (preprocess_erb_code (code b)) of
                                      None \<Rightarrow> []
                                    | Some tree \<Rightarrow>
                                        map (\<lambda>m. \<lparr>r_block = b, r_match = m,
                                           line_number = calculate_line_number p (fst (position b))\<rparr>)
                                          (find_actions_in_ast tree controller_name))
                           (filter (\<lambda>b. should_parse_for_actions (code b)) (erb_blocks p)))))"
proof -
  have "\<not> (\<exists>b\<in>set (erb_blocks p). should_parse_for_actions (code b) \<and>
                 parse (preprocess_erb_code (code b)) = None) \<longrightarrow>
          find_stimulus_actions parse p controller_name =
            Inr (concat (map (\<lambda>b. case parse (preprocess_erb_code (code b)) of
                                      None \<Rightarrow> []
                                    | Some tree \<Rightarrow>
                                        map (\<lambda>m. \<lparr>r_block = b, r_match = m,
                                           line_number = calculate_line_number p (fst (position b))\<rparr>)
                                          (find_actions_in_ast tree controller_name))
                           (filter (\<lambda>b. should_parse_for_actions (code b)) (erb_blocks p))))"
    unfolding find_stimulus_actions_def
    by (rule impI) (rule query_over_file)
  with find_actions_in_hash_pair [OF assms] action_walk_count
  show ?thesis
    by (simp only: match_action_pattern simp_thms)
qed

theorem action_query_matches_witness:
  "is_action_key (Node ''sym'' [SymVal ''action'']) \<and>
   map (\<lambda>m. (pa_event (am_parsed_action m), pa_controller (am_parsed_action m),
              pa_method (am_parsed_action m)))
     (find_actions_in_hash
        (Node ''hash'' ([] @ [Node ''pair'' [Node ''sym'' [SymVal ''action''],
            Node ''str'' [StrVal ''click->menu#open bogus keydown.esc->other-menu#close@window'']]] @ []))
        (Some ''menu'')) =
   [(Some ''click'', ''menu'', ''open'')] \<and>
   count_list
     (find_actions_in_ast
        (action_tag ''click->menu#open bogus keydown.esc->other-menu#close@window'') (Some ''menu''))
     \<lparr>am_action_string = ''click->menu#open bogus keydown.esc->other-menu#close@window'',
       am_parsed_action = \<lparr>pa_action = ''click->menu#open'', pa_event = Some ''click'',
                            pa_controller = ''menu'', pa_method = ''open''\<rparr>,
       am_key_node = Node ''sym'' [SymVal ''action''],
       am_value_node =
         Node ''str'' [StrVal ''click->menu#open bogus keydown.esc->other-menu#close@window'']\<rparr> = 1 \<and>
   count_list
     (find_actions_in_ast
        (action_call ''click->menu#open bogus keydown.esc->other-menu#close@window'') (Some ''menu''))
     \<lparr>am_action_string = ''click->menu#open bogus keydown.esc->other-menu#close@window'',
       am_parsed_action = \<lparr>pa_action = ''click->menu#open'', pa_event = Some ''click'',
                            pa_controller = ''menu'', pa_method = ''open''\<rparr>,
       am_key_node = Node ''sym'' [SymVal ''action''],
       am_value_node =
         Node ''str'' [StrVal ''click->menu#open bogus keydown.esc->other-menu#close@window'']\<rparr> = 2 \<and>
   map (\<lambda>m. pa_action (am_parsed_action m))
     (find_actions_in_ast
        (action_tag ''click->menu#open bogus keydown.esc->other-menu#close@window'') None) =
     [''click->menu#open'', ''keydown.esc->other-menu#close@window''] \<and>
   \<not> list_ex (\<lambda>b. should_parse_for_actions (code b) \<and>
                   sample_parse (preprocess_erb_code (code b)) = None)
       (erb_blocks (erb_ast_parser_new action_view)) \<and>
   (case find_stimulus_actions sample_parse (erb_ast_parser_new action_view) (Some ''menu'') of
      Inl e \<Rightarrow> []
    | Inr rs \<Rightarrow> map (\<lambda>r. (pa_action (am_parsed_action (r_match r)), line_number r)) rs) =
     [(''click->menu#open'', 1)]"
proof -
  let ?s = "''click->menu#open bogus keydown.esc->other-menu#close@window''"
  let ?m = "\<lparr>am_action_string = ?s,
       am_parsed_action = \<lparr>pa_action = ''click->menu#open'', pa_event = Some ''click'',
                            pa_controller = ''menu'', pa_method = ''open''\<rparr>,
       am_key_node = Node ''sym'' [SymVal ''action''],
       am_value_node = Node ''str'' [StrVal ?s]\<rparr>"
  let ?p = "erb_ast_parser_new action_view"
  have h: "is_action_key (Node ''sym'' [SymVal ''action''])"
    by (simp add: is_action_key_def has_type_def child_def children_def)
  have "List.map_filter match_action (scan_tokens ?s) =
        [\<lparr>pa_action = ''click->menu#open'', pa_event = Some ''click'',
           pa_controller = ''menu'', pa_method = ''open''\<rparr>,
         \<lparr>pa_action = ''keydown.esc->other-menu#close@window'', pa_event = Some ''keydown.esc'',
           pa_controller = ''other-menu'', pa_method = ''close''\<rparr>]"
    by code_simp
  then have toks: "List.map_filter match_action
          (filter (\<lambda>tok. tok \<noteq> []) (split_where space_char ?s)) =
        [\<lparr>pa_action = ''click->menu#open'', pa_event = Some ''click'',
           pa_controller = ''menu'', pa_method = ''open''\<rparr>,
         \<lparr>pa_action = ''keydown.esc->other-menu#close@window'', pa_event = Some ''keydown.esc'',
           pa_controller = ''other-menu'', pa_method = ''close''\<rparr>]"
    by (simp only: scan_tokens_split)
  have none: "find_actions_in_hash (Node ''hash'' []) (Some ''menu'') = []"
    by (simp add: find_actions_in_hash_def children_def)
  have nb: "\<not> list_ex (\<lambda>b. should_parse_for_actions (code b) \<and>
                   sample_parse (preprocess_erb_code (code b)) = None) (erb_blocks ?p)"
    by code_simp
  then have nb': "\<not> (\<exists>b\<in>set (erb_blocks ?p). should_parse_for_actions (code b) \<and>
                   sample_parse (preprocess_erb_code (code b)) = None)"
    unfolding list_ex_iff .
  note inst = action_query_matches [OF h, of "[]" ?s "[]" "Some ''menu''" ?p sample_parse]
  note eq = inst [THEN conjunct1, unfolded toks none]
  note walk = inst [THEN conjunct2, THEN conjunct2, THEN conjunct1, rule_format]
  note whole = inst [THEN conjunct2, THEN conjunct2, THEN conjunct2, rule_format, OF nb']
  have t1: "count_list (concat (map (\<lambda>h. find_actions_in_hash h (Some ''menu''))
                                  (hash_nodes (action_tag ?s)))) ?m +
            count_list (concat (map (\<lambda>h. find_actions_in_hash h (Some ''menu''))
                                  (call_argument_hashes (action_tag ?s)))) ?m = 1"
    by code_simp
  have t2: "count_list (concat (map (\<lambda>h. find_actions_in_hash h (Some ''menu''))
                                  (hash_nodes (action_call ?s)))) ?m +
            count_list (concat (map (\<lambda>h. find_actions_in_hash h (Some ''menu''))
                                  (call_argument_hashes (action_call ?s)))) ?m = 2"
    by code_simp
  have c1: "count_list (find_actions_in_ast (action_tag ?s) (Some ''menu'')) ?m = 1"
    by (simp only: walk t1)
  have c2: "count_list (find_actions_in_ast (action_call ?s) (Some ''menu'')) ?m = 2"
    by (simp only: walk t2)
  have e: "map (\<lambda>m. (pa_event (am_parsed_action m), pa_controller (am_parsed_action m),
              pa_method (am_parsed_action m)))
     (find_actions_in_hash
        (Node ''hash'' ([] @ [Node ''pair'' [Node ''sym'' [SymVal ''action''],
            Node ''str'' [StrVal ?s]]] @ []))
        (Some ''menu'')) =
   [(Some ''click'', ''menu'', ''open'')]"
    by (simp only: eq) simp
  have l: "map (\<lambda>m. pa_action (am_parsed_action m))
             (find_actions_in_ast (action_tag ?s) None) =
           [''click->menu#open'', ''keydown.esc->other-menu#close@window'']"
    by code_simp
  have r: "map (\<lambda>r. (pa_action (am_parsed_action (r_match r)), line_number r))
             (concat (map (\<lambda>b. case sample_parse (preprocess_erb_code (code b)) of
                                      None \<Rightarrow> []
                                    | Some tree \<Rightarrow>
                                        map (\<lambda>m. \<lparr>r_block = b, r_match = m,
                                           line_number = calculate_line_number ?p (fst (position b))\<rparr>)
                                          (find_actions_in_ast tree (Some ''menu'')))
                           (filter (\<lambda>b. should_parse_for_actions (code b)) (erb_blocks ?p)))) =
           [(''click->menu#open'', 1)]"
    by code_simp
  have f: "(case find_stimulus_actions sample_parse ?p (Some ''menu'') of
      Inl e \<Rightarrow> []
    | Inr rs \<Rightarrow> map (\<lambda>r. (pa_action (am_parsed_action (r_match r)), line_number r)) rs) =
     [(''click->menu#open'', 1)]"
    by (simp only: whole sum.case r)
  from h e c1 c2 l nb f show ?thesis by (intro conjI)
qed


text \<open>
  C7, as stated, fails for a hash that is a direct argument of a call: the fragment
  \<open>tag.div data: base.merge(action: "click->menu#open")\<close> passes the pre-filter and is
  parsed as it stands, its action string has one token, and the action query yields two
  matches for it, over the tree of the call as over the file.
\<close>

theorem call_argument_hash_twice_counterexample:
  "map (\<lambda>b. preprocess_erb_code (code b))
     (filter (\<lambda>b. should_parse_for_actions (code b))
        (erb_blocks (erb_ast_parser_new merged_action_view))) =
     [''tag.div data: base.merge(action: \"click->menu#open\")''] \<and>
   scan_tokens ''click->menu#open'' = [''click->menu#open''] \<and>
   map (\<lambda>m. pa_action (am_parsed_action m))
     (find_actions_in_ast (action_call ''click->menu#open'') None) =
     [''click->menu#open'', ''click->menu#open''] \<and>
   (case find_stimulus_actions sample_parse (erb_ast_parser_new merged_action_view) None of
      Inl e \<Rightarrow> []
    | Inr rs \<Rightarrow> map (\<lambda>r. (pa_action (am_parsed_action (r_match r)), line_number r)) rs) =
     [(''click->menu#open'', 1), (''click->menu#open'', 1)]"
  by code_simp

section \<open>The target and outlet validators\<close>

lemma each_collect_member:
  "each_collect body xs = Inr fs \<Longrightarrow> f \<in> set fs \<Longrightarrow> \<exists>x\<in>set xs. \<exists>r. body x = Inr r \<and> f \<in> set r"
  by (induction xs arbitrary: fs) (auto split: sum.splits)

lemma check_target_findings:
  "check_target parse fc rp doc ce cn info t = Inr r \<Longrightarrow> f \<in> set r \<Longrightarrow>
     (f = TargetError cn t rp \<or> f = TargetScopeError cn t rp) \<and>
     t \<notin> set (optional_targets info) \<and> t \<notin> set (targets_with_skip info)"
  by (auto simp: check_target_def Let_def split: if_splits sum.splits bool.splits)

text \<open>
  C8. A target listed in \<open>optionalTargets\<close> or in \<open>targetsWithSkip\<close> is passed over before
  any lookup: its check yields no finding, whatever the markup and the fragments are,
  and no finding of a completed target loop names it.
\<close>

theorem skipped_target_no_finding:
  assumes "target \<in> set (optional_targets info) \<or> target \<in> set (targets_with_skip info)"
  shows "check_target parse file_content relative_path doc controller_element controller_name
           info target = Inr [] \<and>
         (\<forall>fs. validate_targets parse file_content relative_path doc controller_element
                  controller_name info = Inr fs \<longrightarrow>
               TargetError controller_name target relative_path \<notin> set fs \<and>
               TargetScopeError controller_name target relative_path \<notin> set fs)"
proof
  from assms show "check_target parse file_content relative_path doc controller_element
      controller_name info target = Inr []"
    by (auto simp: check_target_def)
  show "\<forall>fs. validate_targets parse file_content relative_path doc controller_element
                  controller_name info = Inr fs \<longrightarrow>
               TargetError controller_name target relative_path \<notin> set fs \<and>
               TargetScopeError controller_name target relative_path \<notin> set fs"
  proof (intro allI impI)
    fix fs
    assume v: "validate_targets parse file_content relative_path doc controller_element
                  controller_name info = Inr fs"
    have "f \<in> set fs \<Longrightarrow> f \<noteq> TargetError controller_name target relative_path \<and>
            f \<noteq> TargetScopeError controller_name target relative_path" for f
    proof -
      assume "f \<in> set fs"
      with v obtain t r where
        "check_target parse file_content relative_path doc controller_element controller_name
           info t = Inr r" "f \<in> set r"
        unfolding validate_targets_def by (blast dest: each_collect_member)
      from check_target_findings [OF this] assms show ?thesis by auto
    qed
    then show "TargetError controller_name target relative_path \<notin> set fs \<and>
               TargetScopeError controller_name target relative_path \<notin> set fs"
      by blast
  qed
qed

theorem skipped_target_no_finding_witness:
  "(''item'' \<in> set (optional_targets menu_info_skip) \<or>
    ''item'' \<in> set (targets_with_skip menu_info_skip)) \<and>
   check_target sample_parse [] ''app/views/home/index.html.erb'' [menu_div []] (menu_node [])
     ''menu'' menu_info_skip ''item'' = Inr []"
proof -
  have h: "''item'' \<in> set (optional_targets menu_info_skip) \<or>
           ''item'' \<in> set (targets_with_skip menu_info_skip)"
    by (simp add: menu_info_skip_def)
  from skipped_target_no_finding [OF h] h show ?thesis by blast
qed

lemma each_collect_nonempty:
  "each_collect body xs = Inr rs \<Longrightarrow>
     rs \<noteq> [] \<longleftrightarrow> (\<exists>x\<in>set xs. \<exists>r. body x = Inr r \<and> r \<noteq> [])"
  by (induction xs arbitrary: rs) (auto split: sum.splits)

lemma query_block_nonempty:
  "(\<exists>r. query_block parse p should_parse find_in_ast b = Inr r \<and> r \<noteq> []) \<longleftrightarrow>
     should_parse (code b) \<and>
     (\<exists>tree. parse (preprocess_erb_code (code b)) = Some tree \<and> find_in_ast tree \<noteq> [])"
  by (auto simp: query_block_def split: option.splits)

lemma check_target_erb_match:
  assumes "selector_name controller_name" and "selector_name target"
    and "target \<notin> set (optional_targets info)" and "target \<notin> set (targets_with_skip info)"
    and "\<exists>b\<in>set (erb_blocks (erb_ast_parser_new file_content)).
           should_parse_for_targets (code b) controller_name target \<and>
           (\<exists>tree. parse (preprocess_erb_code (code b)) = Some tree \<and>
              find_targets_in_ast tree controller_name target \<noteq> [])"
  shows "check_target parse file_content relative_path doc controller_element controller_name
           info target =
         (if attr_includes controller_element (''data-'' @ controller_name @ ''-target'') target \<or>
             css_attr_contains (descendants controller_element)
               (''data-'' @ controller_name @ ''-target'') target \<noteq> []
          then Inr []
          else if \<exists>b\<in>set (erb_blocks (erb_ast_parser_new file_content)).
                    should_parse_for_targets (code b) controller_name target \<and>
                    parse (preprocess_erb_code (code b)) = None
          then Inl SyntaxError
          else Inr [])"
proof -
  let ?p = "erb_ast_parser_new file_content"
  let ?body = "query_block parse ?p (\<lambda>c. should_parse_for_targets c controller_name target)
                 (\<lambda>tree. find_targets_in_ast tree controller_name target)"
  let ?bad = "\<exists>b\<in>set (erb_blocks ?p).
                should_parse_for_targets (code b) controller_name target \<and>
                parse (preprocess_erb_code (code b)) = None"
  note ff = query_loop_fail_fast [of "erb_blocks ?p"
      "\<lambda>c. should_parse_for_targets c controller_name target" parse ?p
      "\<lambda>tree. find_targets_in_ast tree controller_name target"]
  have q: "find_stimulus_targets parse ?p controller_name target =
        (if ?bad then Inl SyntaxError
         else Inr (case each_collect ?body (erb_blocks ?p) of Inr rs \<Rightarrow> rs | Inl e \<Rightarrow> []))"
  proof (cases ?bad)
    case True
    with ff show ?thesis unfolding find_stimulus_targets_def by simp
  next
    case False
    with ff obtain rs where "each_collect ?body (erb_blocks ?p) = Inr rs" by auto
    with False show ?thesis unfolding find_stimulus_targets_def by simp
  qed
  have ne: "rs \<noteq> []" if "each_collect ?body (erb_blocks ?p) = Inr rs" for rs
  proof -
    from assms(5) obtain b where b: "b \<in> set (erb_blocks ?p)"
      and "should_parse_for_targets (code b) controller_name target \<and>
           (\<exists>tree. parse (preprocess_erb_code (code b)) = Some tree \<and>
              find_targets_in_ast tree controller_name target \<noteq> [])" by blast
    then have "\<exists>r. ?body b = Inr r \<and> r \<noteq> []"
      by (simp only: query_block_nonempty)
    with b each_collect_nonempty [OF that] show ?thesis by blast
  qed
  let ?found = "attr_includes controller_element (''data-'' @ controller_name @ ''-target'') target \<or>
             css_attr_contains (descendants controller_element)
               (''data-'' @ controller_name @ ''-target'') target \<noteq> []"
  show ?thesis
  proof (cases ?bad)
    case True
    with q have f: "find_stimulus_targets parse ?p controller_name target = Inl SyntaxError"
      by simp
    have "check_target parse file_content relative_path doc controller_element controller_name
           info target = (if ?found then Inr [] else Inl SyntaxError)"
      using f assms(3,4) by (simp add: check_target_def Let_def)
    then show ?thesis unfolding if_P [OF True] .
  next
    case False
    with ff obtain rs where rs: "each_collect ?body (erb_blocks ?p) = Inr rs" by auto
    then have f: "find_stimulus_targets parse ?p controller_name target = Inr rs"
      unfolding find_stimulus_targets_def .
    have "check_target parse file_content relative_path doc controller_element controller_name
           info target = (if ?found then Inr [] else Inr [])"
      using f ne [OF rs] assms(3,4) by (simp add: check_target_def Let_def)
    then show ?thesis unfolding if_not_P [OF False] .
  qed
qed

text \<open>
  C3, as the code has it. For a controller and a required target whose names need no
  escaping in a selector, and a file with a fragment that passes the target pre-filter,
  parses, and in whose tree the target walk has a match: when the target is not in the
  markup of the controller element, the target check yields no finding if every
  fragment that passes the pre-filter parses, and raises the parser's \<open>SyntaxError\<close> if
  one of them does not; and no finding of a completed target loop names the target.
  Neither the document nor the place of the controller element enters: a fragment
  anywhere in the file counts.
\<close>

theorem erb_target_in_fragment:
  assumes "selector_name controller_name" and "selector_name target"
    and "target \<notin> set (optional_targets info)" and "target \<notin> set (targets_with_skip info)"
    and "\<exists>b\<in>set (erb_blocks (erb_ast_parser_new file_content)).
           should_parse_for_targets (code b) controller_name target \<and>
           (\<exists>tree. parse (preprocess_erb_code (code b)) = Some tree \<and>
              find_targets_in_ast tree controller_name target \<noteq> [])"
  shows "check_target parse file_content relative_path doc controller_element controller_name
           info target =
         (if attr_includes controller_element (''data-'' @ controller_name @ ''-target'') target \<or>
             css_attr_contains (descendants controller_element)
               (''data-'' @ controller_name @ ''-target'') target \<noteq> []
          then Inr []
          else if \<exists>b\<in>set (erb_blocks (erb_ast_parser_new file_content)).
                    should_parse_for_targets (code b) controller_name target \<and>
                    parse (preprocess_erb_code (code b)) = None
          then Inl SyntaxError
          else Inr []) \<and>
         (\<forall>fs. validate_targets parse file_content relative_path doc controller_element
                  controller_name info = Inr fs \<longrightarrow>
               TargetError controller_name target relative_path \<notin> set fs \<and>
               TargetScopeError controller_name target relative_path \<notin> set fs)"
proof
  note c = check_target_erb_match [OF assms, of relative_path doc controller_element]
  show "check_target parse file_content relative_path doc controller_element controller_name
           info target =
         (if attr_includes controller_element (''data-'' @ controller_name @ ''-target'') target \<or>
             css_attr_contains (descendants controller_element)
               (''data-'' @ controller_name @ ''-target'') target \<noteq> []
          then Inr []
          else if \<exists>b\<in>set (erb_blocks (erb_ast_parser_new file_content)).
                    should_parse_for_targets (code b) controller_name target \<and>
                    parse (preprocess_erb_code (code b)) = None
          then Inl SyntaxError
          else Inr [])"
    by (rule c)
  have none: "r = []" if "check_target parse file_content relative_path doc controller_element
      controller_name info target = Inr r" for r
    using that unfolding c by (simp split: if_splits)
  show "\<forall>fs. validate_targets parse file_content relative_path doc controller_element
                  controller_name info = Inr fs \<longrightarrow>
               TargetError controller_name target relative_path \<notin> set fs \<and>
               TargetScopeError controller_name target relative_path \<notin> set fs"
  proof (intro allI impI)
    fix fs
    assume v: "validate_targets parse file_content relative_path doc controller_element
                  controller_name info = Inr fs"
    have "f \<in> set fs \<Longrightarrow> f \<noteq> TargetError controller_name target relative_path \<and>
            f \<noteq> TargetScopeError controller_name target relative_path" for f
    proof -
      assume "f \<in> set fs"
      with v obtain t r where tr:
        "check_target parse file_content relative_path doc controller_element controller_name
           info t = Inr r" "f \<in> set r"
        unfolding validate_targets_def by (blast dest: each_collect_member)
      from check_target_findings [OF tr] have
        k: "f = TargetError controller_name t relative_path \<or>
            f = TargetScopeError controller_name t relative_path" by blast
      show ?thesis
      proof (rule ccontr)
        assume "\<not> ?thesis"
        with k have "t = target" by auto
        with tr none show False by auto
      qed
    qed
    then show "TargetError controller_name target relative_path \<notin> set fs \<and>
               TargetScopeError controller_name target relative_path \<notin> set fs"
      by blast
  qed
qed


theorem erb_target_in_fragment_witness:
  "selector_name ''menu'' \<and> selector_name ''item'' \<and>
   ''item'' \<notin> set (optional_targets menu_info) \<and> ''item'' \<notin> set (targets_with_skip menu_info) \<and>
   list_ex (\<lambda>b. should_parse_for_targets (code b) ''menu'' ''item'' \<and>
                 (case sample_parse (preprocess_erb_code (code b)) of
                    None \<Rightarrow> False
                  | Some tree \<Rightarrow> find_targets_in_ast tree ''menu'' ''item'' \<noteq> []))
     (erb_blocks (erb_ast_parser_new target_view)) \<and>
   css_attr_contains (doc_nodes [menu_div []]) ''data-menu-target'' ''item'' = [] \<and>
   check_target sample_parse target_view ''app/views/home/index.html.erb'' [menu_div []]
     (menu_node []) ''menu'' menu_info ''item'' = Inr [] \<and>
   validate_targets sample_parse target_view ''app/views/home/index.html.erb'' [menu_div []]
     (menu_node []) ''menu'' menu_info = Inr [] \<and>
   list_ex (\<lambda>b. should_parse_for_targets (code b) ''menu'' ''item'' \<and>
                 (case sample_parse (preprocess_erb_code (code b)) of
                    None \<Rightarrow> False
                  | Some tree \<Rightarrow> find_targets_in_ast tree ''menu'' ''item'' \<noteq> []))
     (erb_blocks (erb_ast_parser_new unclosed_span_view)) \<and>
   check_target sample_parse unclosed_span_view ''app/views/home/index.html.erb'' [menu_div []]
     (menu_node []) ''menu'' menu_info ''item'' = Inl SyntaxError"
proof -
  let ?m = "\<lambda>b. should_parse_for_targets (code b) ''menu'' ''item'' \<and>
                 (case sample_parse (preprocess_erb_code (code b)) of
                    None \<Rightarrow> False
                  | Some tree \<Rightarrow> find_targets_in_ast tree ''menu'' ''item'' \<noteq> [])"
  let ?bad = "\<lambda>b. should_parse_for_targets (code b) ''menu'' ''item'' \<and>
                 sample_parse (preprocess_erb_code (code b)) = None"
  have h1: "selector_name ''menu''" and h2: "selector_name ''item''"
    by (simp_all add: selector_name_def word_char_def)
  have h3: "''item'' \<notin> set (optional_targets menu_info)"
    and h4: "''item'' \<notin> set (targets_with_skip menu_info)"
    by (simp_all add: menu_info_def)
  have m1: "list_ex ?m (erb_blocks (erb_ast_parser_new target_view))"
    by code_simp
  have m2: "list_ex ?m (erb_blocks (erb_ast_parser_new unclosed_span_view))"
    by code_simp
  have b1: "\<not> list_ex ?bad (erb_blocks (erb_ast_parser_new target_view))"
    by code_simp
  have b2: "list_ex ?bad (erb_blocks (erb_ast_parser_new unclosed_span_view))"
    by code_simp
  have e: "\<not> attr_includes (menu_node []) (''data-'' @ ''menu'' @ ''-target'') ''item''"
    "css_attr_contains (descendants (menu_node [])) (''data-'' @ ''menu'' @ ''-target'') ''item'' = []"
    by (simp_all add: css_attr_contains_def descendants_def menu_node_def menu_div_def
        attr_includes_def attr_def)
  have d: "css_attr_contains (doc_nodes [menu_div []]) ''data-menu-target'' ''item'' = []"
    by (simp add: css_attr_contains_def doc_nodes_def menu_div_def attr_includes_def attr_def)
  have g: "list_ex ?m bs \<Longrightarrow> \<exists>b\<in>set bs.
           should_parse_for_targets (code b) ''menu'' ''item'' \<and>
           (\<exists>tree. sample_parse (preprocess_erb_code (code b)) = Some tree \<and>
              find_targets_in_ast tree ''menu'' ''item'' \<noteq> [])" for bs
    by (auto simp: list_ex_iff split: option.splits)
  have c1: "check_target sample_parse target_view ''app/views/home/index.html.erb'' [menu_div []]
     (menu_node []) ''menu'' menu_info ''item'' = Inr []"
    using erb_target_in_fragment [where relative_path = "''app/views/home/index.html.erb''"
        and doc = "[menu_div []]" and controller_element = "menu_node []",
        OF h1 h2 h3 h4 g [OF m1], THEN conjunct1] e b1
    by (simp only: list_ex_iff if_False if_True simp_thms not_False_eq_True) 
  have c2: "check_target sample_parse unclosed_span_view ''app/views/home/index.html.erb'' [menu_div []]
     (menu_node []) ''menu'' menu_info ''item'' = Inl SyntaxError"
    using erb_target_in_fragment [where relative_path = "''app/views/home/index.html.erb''"
        and doc = "[menu_div []]" and controller_element = "menu_node []",
        OF h1 h2 h3 h4 g [OF m2], THEN conjunct1] e b2
    by (simp only: list_ex_iff if_False if_True simp_thms not_False_eq_True)
  have v: "validate_targets sample_parse target_view ''app/views/home/index.html.erb'' [menu_div []]
     (menu_node []) ''menu'' menu_info = Inr []"
    by code_simp
  from h1 h2 h3 h4 m1 m2 d c1 c2 v show ?thesis by blast
qed

text \<open>
  C3, as stated, fails on a view whose last fragment declares the target while an
  earlier fragment, merged with the \<open>end\<close> that follows it, passes the pre-filter and does
  not parse: the target check raises instead of counting the target as found.
\<close>

theorem erb_target_unparsed_fragment_counterexample:
  "map (\<lambda>b. preprocess_erb_code (code b))
     (filter (\<lambda>b. should_parse_for_targets (code b) ''menu'' ''item'')
        (erb_blocks (erb_ast_parser_new unclosed_span_view))) =
     [''tag.span data: { \"menu-target\" => \"other\" }'' @ newline # ''end'',
      ''tag.div data: { \"menu-target\" => \"item\" }''] \<and>
   (case sample_parse ''tag.div data: { \"menu-target\" => \"item\" }'' of
      None \<Rightarrow> False
    | Some tree \<Rightarrow> find_targets_in_ast tree ''menu'' ''item'' \<noteq> []) \<and>
   check_target sample_parse unclosed_span_view ''app/views/home/index.html.erb'' [menu_div []]
     (menu_node []) ''menu'' menu_info ''item'' = Inl SyntaxError"
  by code_simp


text \<open>
  C9. The direct and the descendant check are containment tests: when the value of
  \<open>data-{controller}-target\<close> on the controller element, or on one of its descendants,
  contains the target name as a substring, the target check yields no finding. So the
  target \<open>item\<close> is satisfied by a descendant that declares only \<open>itemRow\<close>.
\<close>

theorem target_substring_in_scope:
  assumes "selector_name controller_name" and "selector_name target"
    and "attr_includes controller_element (''data-'' @ controller_name @ ''-target'') target \<or>
         (\<exists>d\<in>set (descendants controller_element).
            attr_includes d (''data-'' @ controller_name @ ''-target'') target)"
  shows "check_target parse file_content relative_path doc controller_element controller_name
           info target = Inr []"
proof -
  from assms(3) have
    "attr_includes controller_element (''data-'' @ controller_name @ ''-target'') target \<or>
     css_attr_contains (descendants controller_element) (''data-'' @ controller_name @ ''-target'')
       target \<noteq> []"
    by (auto simp: css_attr_contains_def filter_empty_conv)
  then show ?thesis
    by (auto simp: check_target_def Let_def)
qed

theorem target_substring_in_scope_witness:
  "selector_name ''menu'' \<and> selector_name ''item'' \<and>
   (\<exists>d\<in>set (descendants (menu_node [Element ''li'' [(''data-menu-target'', ''itemRow'')] []])).
      attr d ''data-menu-target'' = Some ''itemRow'' \<and>
      attr_includes d ''data-menu-target'' ''item'') \<and>
   check_target sample_parse [] ''app/views/home/index.html.erb''
     [menu_div [Element ''li'' [(''data-menu-target'', ''itemRow'')] []]]
     (menu_node [Element ''li'' [(''data-menu-target'', ''itemRow'')] []])
     ''menu'' menu_info ''item'' = Inr []"
proof -
  have h1: "selector_name ''menu''" and h2: "selector_name ''item''"
    by (simp_all add: selector_name_def word_char_def)
  have d: "\<exists>d\<in>set (descendants (menu_node [Element ''li'' [(''data-menu-target'', ''itemRow'')] []])).
      attr d ''data-menu-target'' = Some ''itemRow'' \<and>
      attr_includes d ''data-menu-target'' ''item''"
    by (simp add: descendants_def menu_node_def menu_div_def attr_includes_def attr_def
        str_include_def sublist_code)
  then have h3: "attr_includes (menu_node [Element ''li'' [(''data-menu-target'', ''itemRow'')] []])
           (''data-'' @ ''menu'' @ ''-target'') ''item'' \<or>
         (\<exists>d\<in>set (descendants (menu_node [Element ''li'' [(''data-menu-target'', ''itemRow'')] []])).
            attr_includes d (''data-'' @ ''menu'' @ ''-target'') ''item'')"
    by auto
  from target_substring_in_scope [OF h1 h2 h3] h1 h2 d show ?thesis by blast
qed








section \<open>The action validator\<close>

lemma controller_in_erb_blocks_never:
  "\<not> controller_in_erb_blocks parse file_content controller_name"
  by (simp add: controller_in_erb_blocks_def example_contains_controller_in_ast_def list_ex_iff
      split: option.splits)

lemma unresolved_scope_short_circuits:
  assumes "controller_scope fuel partial_parent_map read_doc file_content relative_path
             action_info = Some False"
  shows "check_action fuel parse partial_parent_map read_doc controller_data file_content
           relative_path doc action_info =
         Some [ScopeError (ai_action action_info) (ai_controller action_info) relative_path
                 (str_include relative_path ''_'')
                 (case partial_parent_map relative_path of None \<Rightarrow> [] | Some ps \<Rightarrow> ps)
                 (source_of (ai_origin action_info))
                 (if list_ex (\<lambda>element. case attr element ''data-controller'' of
                                None \<Rightarrow> False
                              | Some v \<Rightarrow> ai_controller action_info \<in> set (split_ws v))
                       (css_has_attr (doc_nodes doc) ''data-controller'')
                  then ''out_of_scope'' else ''missing_controller'')]"
  using assms
  by (simp add: check_action_def controller_exists_in_file_def controller_in_erb_blocks_never)

lemma method_checked_only_in_scope:
  assumes "check_action fuel parse partial_parent_map read_doc controller_data file_content
             relative_path doc action_info = Some fs"
    and "ActionError a c m f ms src \<in> set fs"
  shows "controller_scope fuel partial_parent_map read_doc file_content relative_path
           action_info = Some True"
  using assms by (auto simp: check_action_def split: option.splits if_splits)

text \<open>
  C4. An action whose controller scope is not resolved gets exactly one scope finding
  and no method check (\<open>unresolved_scope_short_circuits\<close>,
  \<open>method_checked_only_in_scope\<close>). The error type of the finding is \<open>out_of_scope\<close> only
  when an element of the markup declares the controller: the fragment scan for the
  controller never answers yes (\<open>controller_in_erb_blocks_never\<close>). So in the view
  below, where the controller is declared in a fragment of the file, as the scan of the
  coverage statistics finds, the action beside it is reported as \<open>missing_controller\<close>
  and not as \<open>out_of_scope\<close>.
\<close>

theorem action_scope_misses_erb_controller:
  "validate_actions 1 sample_parse no_partial_parents no_parent_docs menu_controller_data
     erb_controller_view ''app/views/home/index.html.erb'' erb_controller_doc =
     Some (Inr [ScopeError ''click->menu#open'' ''menu'' ''app/views/home/index.html.erb''
                  False [] None ''missing_controller'']) \<and>
   found_in_erb sample_parse (erb_ast_parser_new erb_controller_view) ''menu''"
  by code_simp

section \<open>The broadcast validator\<close>

lemma chat_stream: "extract_broadcast_stream_name (chat_broadcast interpolated more_pairs) local_vars = Some ''chat_''"
  by (simp add: extract_broadcast_stream_name_def chat_broadcast_def child_def children_def has_type_def)

lemma chat_type: "extract_broadcast_type_from_node (chat_broadcast interpolated more_pairs) = Some ''new-message''"
  by (simp add: extract_broadcast_type_from_node_def chat_broadcast_def child_def children_def
      has_type_def type_of_pair_def List.map_filter_simps)

lemma chat_channel: "infer_channel_name_from_stream ''chat_'' = ''chat''"
  by (simp add: infer_channel_name_from_stream_def chomp_def digit_char_def)

lemma chat_method: "''handle'' @ capitalize_type ''new-message'' = ''handleNewMessage''"
  by (simp add: capitalize_type_def capitalize_def drop_trailing_empty_def upcase_char_def downcase_char_def)

lemma chat_is_broadcast: "is_actioncable_broadcast (chat_broadcast interpolated more_pairs)"
  by (simp add: is_actioncable_broadcast_def chat_broadcast_def child_def children_def has_type_def)

lemma children_found:
  assumes "c \<in> set cs"
    and "\<And>vars. \<exists>bs1 bs2 vars'. fst (find_actioncable_broadcasts_in_ast line_of c vars) =
            bs1 @ broadcast_entry line_of node vars' # bs2"
  shows "\<exists>bs1 bs2 vars'. fst (find_broadcasts_in_children line_of cs vars) =
            bs1 @ broadcast_entry line_of node vars' # bs2"
  using assms(1)
proof (induction cs arbitrary: vars)
  case Nil
  then show ?case by simp
next
  case (Cons a cs)
  show ?case
  proof (cases "a = c")
    case True
    from assms(2) [of vars] obtain bs1 bs2 vars' where
      "fst (find_actioncable_broadcasts_in_ast line_of c vars) =
         bs1 @ broadcast_entry line_of node vars' # bs2" by blast
    with True have "fst (find_broadcasts_in_children line_of (a # cs) vars) =
        bs1 @ broadcast_entry line_of node vars' #
        (bs2 @ fst (find_broadcasts_in_children line_of cs
                      (snd (find_actioncable_broadcasts_in_ast line_of c vars))))"
      by (simp add: Let_def)
    then show ?thesis by blast
  next
    case False
    with Cons.prems have "c \<in> set cs" by simp
    from Cons.IH [OF this, of "snd (find_actioncable_broadcasts_in_ast line_of a vars)"]
    obtain bs1 bs2 vars' where
      "fst (find_broadcasts_in_children line_of cs
              (snd (find_actioncable_broadcasts_in_ast line_of a vars))) =
         bs1 @ broadcast_entry line_of node vars' # bs2" by blast
    then have "fst (find_broadcasts_in_children line_of (a # cs) vars) =
        (fst (find_actioncable_broadcasts_in_ast line_of a vars) @ bs1) @
        broadcast_entry line_of node vars' # bs2"
      by (simp add: Let_def)
    then show ?thesis by blast
  qed
qed

lemma broadcast_found:
  assumes "occurs_in node tree" and "is_actioncable_broadcast node"
  shows "\<exists>bs1 bs2 vars'. fst (find_actioncable_broadcasts_in_ast line_of tree vars) =
            bs1 @ broadcast_entry line_of node vars' # bs2"
  using assms
proof (induction arbitrary: vars rule: occurs_in.induct)
  case (here node)
  then obtain t cs where n: "node = Node t cs"
    by (cases node) (auto simp: is_actioncable_broadcast_def has_type_def)
  with here have "fst (find_actioncable_broadcasts_in_ast line_of node vars) =
      [] @ broadcast_entry line_of node (track_assignment node vars) #
      fst (find_broadcasts_in_children line_of cs (track_assignment node vars))"
    by (simp add: Let_def)
  then show ?case by blast
next
  case (below c cs node t)
  from children_found [OF below.hyps(1), of line_of node "track_assignment (Node t cs) vars"]
    below.IH [OF below.prems]
  obtain bs1 bs2 vars' where
    "fst (find_broadcasts_in_children line_of cs (track_assignment (Node t cs) vars)) =
       bs1 @ broadcast_entry line_of node vars' # bs2" by blast
  then have "fst (find_actioncable_broadcasts_in_ast line_of (Node t cs) vars) =
      ((if is_actioncable_broadcast (Node t cs)
        then [broadcast_entry line_of (Node t cs) (track_assignment (Node t cs) vars)] else []) @ bs1) @
      broadcast_entry line_of node vars' # bs2"
    by (simp add: Let_def)
  then show ?case by blast
qed

lemma chat_broadcast_checked:
  assumes "file_exists ''app/javascript/controllers/chat_controller.ts''"
  shows "check_broadcast file_exists controller_data relative_path
           (broadcast_entry line_of (chat_broadcast interpolated more_pairs) local_vars) =
           (if ''handleNewMessage'' \<in> set (methods_of controller_data ''chat'') then []
            else [\<lparr>be_source_file = relative_path,
                   be_line = line_of (chat_broadcast interpolated more_pairs),
                   be_stream_name = ''chat_'', be_channel_name = ''chat'',
                   be_type = Some ''new-message'', be_expected_method = Some ''handleNewMessage'',
                   be_frontend_file = ''app/javascript/controllers/chat_controller.ts'',
                   be_error_type = ''missing_handler''\<rparr>])"
  using assms chat_method
  by (simp add: check_broadcast_def broadcast_entry_def chat_stream chat_type chat_channel
      tr_char_def Let_def)

text \<open>
  C5. For a channel or job file in whose tree the call
  \<open>ActionCable.server.broadcast("chat_#{id}", { type: 'new-message', ... })\<close> occurs, at
  any depth, whatever is interpolated and whatever else the payload holds: the walk
  over the file finds the call, its stream name is the static prefix \<open>chat_\<close>, the channel
  is \<open>chat\<close>, and, the file of the chat controller being there, the findings for the
  file are those of the broadcasts before the call, then nothing when \<open>handleNewMessage\<close>
  is among the methods of the \<open>chat\<close> controller and else the one finding
  \<open>missing_handler\<close> with the expected method \<open>handleNewMessage\<close>, then those of the
  broadcasts after the call.
\<close>

theorem chat_broadcast_in_file:
  assumes "file_exists ''app/javascript/controllers/chat_controller.ts''"
    and "\<not> str_include relative_path ''application_cable/channel.rb''"
    and "parse source = Some tree"
    and "occurs_in (chat_broadcast interpolated more_pairs) tree"
  shows "\<exists>before after local_vars.
           fst (find_actioncable_broadcasts_in_ast line_of tree Map.empty) =
             before @
             broadcast_entry line_of (chat_broadcast interpolated more_pairs) local_vars # after \<and>
           b_stream_name
             (broadcast_entry line_of (chat_broadcast interpolated more_pairs) local_vars) =
             Some ''chat_'' \<and>
           infer_channel_name_from_stream ''chat_'' = ''chat'' \<and>
           validate_broadcast_source parse line_of file_exists controller_data relative_path source =
             concat (map (check_broadcast file_exists controller_data relative_path) before) @
             (if ''handleNewMessage'' \<in> set (methods_of controller_data ''chat'') then []
              else [\<lparr>be_source_file = relative_path,
                     be_line = line_of (chat_broadcast interpolated more_pairs),
                     be_stream_name = ''chat_'', be_channel_name = ''chat'',
                     be_type = Some ''new-message'', be_expected_method = Some ''handleNewMessage'',
                     be_frontend_file = ''app/javascript/controllers/chat_controller.ts'',
                     be_error_type = ''missing_handler''\<rparr>]) @
             concat (map (check_broadcast file_exists controller_data relative_path) after)"
proof -
  from broadcast_found [OF assms(4) chat_is_broadcast, of line_of Map.empty]
  obtain before after local_vars where f:
    "fst (find_actioncable_broadcasts_in_ast line_of tree Map.empty) =
       before @ broadcast_entry line_of (chat_broadcast interpolated more_pairs) local_vars # after"
    by blast
  have s: "b_stream_name
             (broadcast_entry line_of (chat_broadcast interpolated more_pairs) local_vars) =
             Some ''chat_''"
    by (simp add: broadcast_entry_def chat_stream)
  have v: "validate_broadcast_source parse line_of file_exists controller_data relative_path source =
             concat (map (check_broadcast file_exists controller_data relative_path) before) @
             check_broadcast file_exists controller_data relative_path
               (broadcast_entry line_of (chat_broadcast interpolated more_pairs) local_vars) @
             concat (map (check_broadcast file_exists controller_data relative_path) after)"
    using assms(2,3) f by (simp add: validate_broadcast_source_def)
  note c = chat_broadcast_checked [where file_exists = file_exists, OF assms(1)]
  from f s chat_channel v [unfolded c]
  show ?thesis by blast
qed

theorem chat_broadcast_in_file_witness:
  "chat_file_exists ''app/javascript/controllers/chat_controller.ts'' \<and>
   \<not> str_include ''app/channels/chat_channel.rb'' ''application_cable/channel.rb'' \<and>
   chat_channel_parse chat_channel_source = Some chat_channel_tree \<and>
   occurs_in (chat_broadcast [Node ''begin'' [Node ''send'' [NilVal, SymVal ''id'']]]
                [Node ''pair'' [Node ''sym'' [SymVal ''body''], Node ''lvar'' [SymVal ''data'']]])
     chat_channel_tree \<and>
   (\<exists>before after local_vars.
      fst (find_actioncable_broadcasts_in_ast chat_line chat_channel_tree Map.empty) =
        before @
        broadcast_entry chat_line
          (chat_broadcast [Node ''begin'' [Node ''send'' [NilVal, SymVal ''id'']]]
             [Node ''pair'' [Node ''sym'' [SymVal ''body''], Node ''lvar'' [SymVal ''data'']]])
          local_vars # after) \<and>
   validate_broadcast_source chat_channel_parse chat_line chat_file_exists
     (chat_controller_data [''connect'', ''handleNewMessage'']) ''app/channels/chat_channel.rb''
     chat_channel_source = [] \<and>
   validate_broadcast_source chat_channel_parse chat_line chat_file_exists
     (chat_controller_data [''connect'']) ''app/channels/chat_channel.rb''
     chat_channel_source =
     [\<lparr>be_source_file = ''app/channels/chat_channel.rb'', be_line = 3,
       be_stream_name = ''chat_'', be_channel_name = ''chat'',
       be_type = Some ''new-message'', be_expected_method = Some ''handleNewMessage'',
       be_frontend_file = ''app/javascript/controllers/chat_controller.ts'',
       be_error_type = ''missing_handler''\<rparr>]"
proof -
  let ?call = "chat_broadcast [Node ''begin'' [Node ''send'' [NilVal, SymVal ''id'']]]
                [Node ''pair'' [Node ''sym'' [SymVal ''body''], Node ''lvar'' [SymVal ''data'']]]"
  have h: "chat_file_exists ''app/javascript/controllers/chat_controller.ts''"
    by (simp add: chat_file_exists_def)
  have n: "\<not> str_include ''app/channels/chat_channel.rb'' ''application_cable/channel.rb''"
    by (simp add: str_include_def sublist_code)
  have p: "chat_channel_parse chat_channel_source = Some chat_channel_tree"
    by (simp add: chat_channel_parse_def)
  have "occurs_in ?call (Node ''def''
          [SymVal ''speak'', Node ''args'' [Node ''arg'' [SymVal ''data'']], ?call])"
    by (rule occurs_in.below [OF _ occurs_in.here]) simp
  then have o: "occurs_in ?call chat_channel_tree"
    unfolding chat_channel_tree_def by (rule occurs_in.below [rotated]) simp
  have v1: "validate_broadcast_source chat_channel_parse chat_line chat_file_exists
     (chat_controller_data [''connect'', ''handleNewMessage'']) ''app/channels/chat_channel.rb''
     chat_channel_source = []"
    by code_simp
  have v2: "validate_broadcast_source chat_channel_parse chat_line chat_file_exists
     (chat_controller_data [''connect'']) ''app/channels/chat_channel.rb''
     chat_channel_source =
     [\<lparr>be_source_file = ''app/channels/chat_channel.rb'', be_line = 3,
       be_stream_name = ''chat_'', be_channel_name = ''chat'',
       be_type = Some ''new-message'', be_expected_method = Some ''handleNewMessage'',
       be_frontend_file = ''app/javascript/controllers/chat_controller.ts'',
       be_error_type = ''missing_handler''\<rparr>]"
    by code_simp
  from chat_broadcast_in_file [where file_exists = chat_file_exists and parse = chat_channel_parse
      and line_of = chat_line, OF h n p o]
  have "\<exists>before after local_vars.
      fst (find_actioncable_broadcasts_in_ast chat_line chat_channel_tree Map.empty) =
        before @ broadcast_entry chat_line ?call local_vars # after"
    by blast
  with h n p o v1 v2 show ?thesis by blast
qed


end
